theory Spec2Isabelle
  imports Complex_Main "HOL-Library.Log_Nat" "HOL-Library.Char_ord" "HOL-Library.List_Lexorder"
begin

section \<open>Python values reaching the status line\<close>

text \<open>
  The music player (\<^verbatim>\<open>music_player.py\<close>) is dynamically typed: what a property query
  returns is whatever JSON value the player sent. The values are modelled as they are
  after \<^verbatim>\<open>json.loads\<close>. A Python \<^verbatim>\<open>float\<close> is an IEEE double: a finite one is
  represented by the rational it denotes.
\<close>

datatype pyfloat = Fin rat | PosInf | NegInf | NaN

datatype pyval =
    PNone
  | PBool bool
  | PInt int
  | PFloat pyfloat
  | PStr string
  | PList "pyval list"
  | PDict "(string \<times> pyval) list"

datatype exn =
    ValueError
  | TypeError
  | OverflowError
  | IndexError
  | ZeroDivisionError
  | AttributeError
  | JSONDecodeError
  | UnicodeDecodeError
  | RecursionError
  | OSError
  | ConnectionRefusedError
  | FileNotFoundError
  | BrokenPipeError
  | SocketTimeout
  | ConnectionResetError
  | PermissionError
  | SystemExit int

text \<open>Truth value of an object, as \<^verbatim>\<open>if x\<close>, \<^verbatim>\<open>x or y\<close> and \<^verbatim>\<open>not x\<close> take it.\<close>

fun py_truthy :: "pyval \<Rightarrow> bool" where
  "py_truthy PNone = False"
| "py_truthy (PBool b) = b"
| "py_truthy (PInt i) = (i \<noteq> 0)"
| "py_truthy (PFloat (Fin r)) = (r \<noteq> 0)"
| "py_truthy (PFloat _) = True"
| "py_truthy (PStr s) = (s \<noteq> [])"
| "py_truthy (PList xs) = (xs \<noteq> [])"
| "py_truthy (PDict kvs) = (kvs \<noteq> [])"

definition py_or :: "pyval \<Rightarrow> pyval \<Rightarrow> pyval" where
  "py_or a b = (if py_truthy a then a else b)"

subsection \<open>Conversions between integers and doubles\<close>

text \<open>
  \<open>floor_log2 q\<close> is the exponent \<open>e\<close> with \<open>2 powi e \<le> q < 2 powi (e + 1)\<close> of a positive
  rational; \<open>round_half_even\<close> rounds to the nearest integer, ties to the even one.
\<close>

definition floor_log2 :: "rat \<Rightarrow> int" where
  "floor_log2 q =
     (let (n, d) = quotient_of q; e0 = bitlen n - bitlen d
      in if 2 powi e0 \<le> q then e0 else e0 - 1)"

definition round_half_even :: "rat \<Rightarrow> int" where
  "round_half_even m =
     (let f = \<lfloor>m\<rfloor>; r = m - of_int f
      in if r < 1 / 2 then f else if 1 / 2 < r then f + 1 else if even f then f else f + 1)"

text \<open>
  Rounding of an exact value below the overflow threshold to the nearest double
  (53 bits of precision, smallest normal exponent \<open>-1022\<close>).
\<close>

definition round_double :: "rat \<Rightarrow> rat" where
  "round_double q =
     (if q = 0 then 0
      else let e = max (floor_log2 \<bar>q\<bar>) (- 1022); u = 2 powi (e - 52)
           in of_int (round_half_even (q / u)) * u)"

text \<open>
  An exact value converted to a double, as \<^verbatim>\<open>float(n)\<close> and the true division
  \<^verbatim>\<open>a / b\<close> of two integers do: correctly rounded, and OverflowError from
  \<open>2^1024 - 2^970\<close> on, where rounding would leave the finite range.
\<close>

definition to_double :: "rat \<Rightarrow> exn + rat" where
  "to_double q =
     (if 2 ^ 1024 - 2 ^ 970 \<le> \<bar>q\<bar> then Inl OverflowError else Inr (round_double q))"

text \<open>
  \<^verbatim>\<open>float(x)\<close>. Parsing a string is Python's own grammar of float literals; it is the
  parameter \<open>str2f\<close>, \<open>None\<close> where \<^verbatim>\<open>float\<close> raises ValueError.
\<close>

fun py_float :: "(string \<Rightarrow> pyfloat option) \<Rightarrow> pyval \<Rightarrow> exn + pyfloat" where
  "py_float str2f PNone = Inl TypeError"
| "py_float str2f (PBool b) = Inr (Fin (if b then 1 else 0))"
| "py_float str2f (PInt i) =
     (case to_double (of_int i) of Inl e \<Rightarrow> Inl e | Inr r \<Rightarrow> Inr (Fin r))"
| "py_float str2f (PFloat f) = Inr f"
| "py_float str2f (PStr s) = (case str2f s of None \<Rightarrow> Inl ValueError | Some f \<Rightarrow> Inr f)"
| "py_float str2f (PList xs) = Inl TypeError"
| "py_float str2f (PDict kvs) = Inl TypeError"

text \<open>\<^verbatim>\<open>int(f)\<close> of a float truncates towards zero.\<close>

definition py_trunc :: "rat \<Rightarrow> int" where
  "py_trunc r = (if 0 \<le> r then \<lfloor>r\<rfloor> else \<lceil>r\<rceil>)"

fun py_int_of_float :: "pyfloat \<Rightarrow> exn + int" where
  "py_int_of_float (Fin r) = Inr (py_trunc r)"
| "py_int_of_float PosInf = Inl OverflowError"
| "py_int_of_float NegInf = Inl OverflowError"
| "py_int_of_float NaN = Inl ValueError"

text \<open>\<^verbatim>\<open>f > 0\<close> on a float.\<close>

fun float_gt_zero :: "pyfloat \<Rightarrow> bool" where
  "float_gt_zero (Fin r) = (0 < r)"
| "float_gt_zero PosInf = True"
| "float_gt_zero NegInf = False"
| "float_gt_zero NaN = False"

subsection \<open>Rendering integers\<close>

definition digit_char :: "nat \<Rightarrow> char" where
  "digit_char d = char_of (48 + d)"

fun str_nat :: "nat \<Rightarrow> string" where
  "str_nat n = (if n < 10 then [digit_char n] else str_nat (n div 10) @ [digit_char (n mod 10)])"

declare str_nat.simps [simp del]

text \<open>\<^verbatim>\<open>str(i)\<close>, as an f-string renders \<^verbatim>\<open>{i}\<close>.\<close>

definition str_int :: "int \<Rightarrow> string" where
  "str_int i = (if i < 0 then CHR ''-'' # str_nat (nat (- i)) else str_nat (nat i))"

text \<open>
  The format \<^verbatim>\<open>{i:02d}\<close>: zero padding to two characters, the sign counted in the
  width.
\<close>

definition fmt_02d :: "int \<Rightarrow> string" where
  "fmt_02d i = (let s = str_int i in if length s < 2 then CHR ''0'' # s else s)"

section \<open>UI drawing: the status line\<close>

definition ESC :: string where
  "ESC = [CHR 0x1B]"

text \<open>U+2588 (full block) and U+2591 (light shade) in UTF-8.\<close>

definition full_block :: string where
  "full_block = [CHR 0xE2, CHR 0x96, CHR 0x88]"

definition light_shade :: string where
  "light_shade = [CHR 0xE2, CHR 0x96, CHR 0x91]"

text \<open>
  \<^verbatim>\<open>s * n\<close> on a string. The count is converted to an index first: one that does
  not fit \<^verbatim>\<open>Py_ssize_t\<close> (64 bits) raises OverflowError, also when it is negative.
  Otherwise the result is empty for \<open>n \<le> 0\<close> and \<open>n\<close> copies for the rest. Whether the
  machine has the memory for a long result (MemoryError when it has not) is not
  part of the model: where a statement below gives a bar, the bar has fifty cells.
\<close>

definition PY_SSIZE_T_MAX :: int where
  "PY_SSIZE_T_MAX = 2 ^ 63 - 1"

definition str_times :: "string \<Rightarrow> int \<Rightarrow> exn + string" where
  "str_times s n =
     (if n < - PY_SSIZE_T_MAX - 1 \<or> PY_SSIZE_T_MAX < n then Inl OverflowError
      else Inr (concat (replicate (nat n) s)))"

text \<open>
  \<^verbatim>\<open>format_time_str(seconds)\<close>: only ValueError and TypeError are caught; any other
  exception of the conversion leaves the function.
\<close>

definition format_time_str :: "(string \<Rightarrow> pyfloat option) \<Rightarrow> pyval \<Rightarrow> exn + string" where
  "format_time_str str2f seconds0 =
     (let seconds = (if seconds0 = PNone then PInt 0 else seconds0);
          converted = (case py_float str2f seconds of
                         Inl e \<Rightarrow> Inl e
                       | Inr f \<Rightarrow> py_int_of_float f)
      in case converted of
           Inr n \<Rightarrow> Inr (fmt_02d (n div 60) @ '':'' @ fmt_02d (n mod 60))
         | Inl e \<Rightarrow> if e = ValueError \<or> e = TypeError then Inr ''00:00'' else Inl e)"

definition width :: int where
  "width = 50"

text \<open>
  \<^verbatim>\<open>draw_progress_bar(percent)\<close>. \<^verbatim>\<open>width * percent / 100\<close> is a true division of
  integers, a double, truncated by \<^verbatim>\<open>int\<close>. Each of the two repetitions can raise.
\<close>

definition draw_progress_bar :: "(string \<Rightarrow> pyfloat option) \<Rightarrow> pyval \<Rightarrow> exn + string" where
  "draw_progress_bar str2f percent0 =
     (case py_float str2f (py_or percent0 (PInt 0)) of
        Inl e \<Rightarrow> Inl e
      | Inr f \<Rightarrow>
         (case py_int_of_float f of
            Inl e \<Rightarrow> Inl e
          | Inr percent \<Rightarrow>
             (case to_double (of_int (width * percent) / 100) of
                Inl e \<Rightarrow> Inl e
              | Inr x \<Rightarrow>
                 (let filled_len = py_trunc x
                  in case str_times full_block filled_len of
                       Inl e \<Rightarrow> Inl e
                     | Inr bar \<Rightarrow>
                        (let empty_len = width - filled_len
                         in case str_times light_shade empty_len of
                              Inl e \<Rightarrow> Inl e
                            | Inr rest \<Rightarrow>
                               Inr (''['' @ ESC @ ''[1;36m'' @ (bar @ rest) @ ESC @ ''[0m] ''
                                     @ str_int percent @ ''%''))))))"

text \<open>
  The line that \<^verbatim>\<open>update_progress_display\<close> writes (its \<^verbatim>\<open>if\<close>/\<^verbatim>\<open>else\<close>): the bar
  and the two times when \<^verbatim>\<open>percent\<close> is not None and is positive as a float,
  the loading text otherwise.
\<close>

definition loading_line :: string where
  "loading_line = ESC @ ''[1;33mLoading...'' @ ESC @ ''[0m''"

definition progress_line ::
  "(string \<Rightarrow> pyfloat option) \<Rightarrow> pyval \<Rightarrow> pyval \<Rightarrow> pyval \<Rightarrow> exn + string" where
  "progress_line str2f percent current_pos total_duration =
     (if percent = PNone then Inr loading_line
      else case py_float str2f (py_or percent (PInt 0)) of
             Inl e \<Rightarrow> Inl e
           | Inr f \<Rightarrow>
              if float_gt_zero f then
                (case draw_progress_bar str2f percent of
                   Inl e \<Rightarrow> Inl e
                 | Inr progress_bar \<Rightarrow>
                    (case format_time_str str2f current_pos of
                       Inl e \<Rightarrow> Inl e
                     | Inr current_formatted \<Rightarrow>
                        (case format_time_str str2f total_duration of
                           Inl e \<Rightarrow> Inl e
                         | Inr total_formatted \<Rightarrow>
                            Inr (progress_bar @ '' '' @ ESC @ ''[1;37m'' @ current_formatted
                                  @ '' / '' @ total_formatted @ ESC @ ''[0m''))))
              else Inr loading_line)"

section \<open>The outside world and the module's globals\<close>

text \<open>
  Results of the functions that act on the world: a value, a raised exception
  (\<^verbatim>\<open>sys.exit(n)\<close> raises \<open>SystemExit n\<close>), or \<open>Pending\<close> when the function is still
  blocked on the user and the recorded interaction has ended.
\<close>

datatype 'a result = Returns 'a | Raises exn | Pending

type_synonym pid = nat

datatype effect =
    Terminate pid
  | Wait pid rat
  | Kill pid
  | Unlink
  | Popen "string list"
  | Sleep rat
  | Stdout string
  | Clear
  | DrawFullInterface
  | Sent pyval
  | Tcgetattr
  | Setcbreak
  | Tcsetattr
  | Signal_handlers

text \<open>
  The globals of \<^verbatim>\<open>music_player.py\<close> (songs by file name: every song of the list lies
  in \<^verbatim>\<open>MUSIC_ROOT / current_folder\<close>), the local \<^verbatim>\<open>last_progress_update\<close> of
  \<^verbatim>\<open>main\<close>, and what the program touches outside itself: the player processes it
  has spawned that are still running, the file \<^verbatim>\<open>/tmp/mpv-musicplayer\<close> (absent, or
  created by the process named), the two preference logs, and the sequence of
  its other effects.
\<close>

record world =
  mpv_process :: "pid option"
  current_folder :: string
  songs :: "string list"
  current_song_index :: int
  needs_full_redraw :: bool
  old_termios_settings :: bool
  last_progress_update :: rat
  live :: "pid list"
  next_pid :: pid
  sock :: "pid option"
  likes_file :: string
  dislikes_file :: string
  trace :: "effect list"

text \<open>
  What \<^verbatim>\<open>s.recv(4096)\<close> returned: nothing, or bytes, which are given by what
  \<^verbatim>\<open>json.loads\<close> makes of them: the value, or the exception it raises
  (UnicodeDecodeError for bytes in no Unicode encoding, JSONDecodeError for text
  that is not one JSON document, RecursionError for one nested too deep).
\<close>

datatype recv_data = NoData | LoadsRaises exn | Decoded pyval

datatype chan_io =
    ConnectRaises exn
  | SendallRaises exn
  | RecvRaises exn
  | Received recv_data

datatype fzf_out = FzfMissing | FzfDone int string

text \<open>
  What \<^verbatim>\<open>with open(path, "a") as f: f.write(line)\<close> does: the line is appended; or
  \<^verbatim>\<open>open\<close> raises (a log that is a directory or may not be written); or writing
  raises (a full disk) after so many characters of the line have reached the file.
\<close>

datatype append_io = Appended | OpenRaises exn | WriteRaises exn nat

text \<open>
  What the surroundings answer during one call or one iteration of the main loop:
  the clock, the key waiting on stdin (if any), what happens on the socket for each
  request (the bytes received are classified by what \<^verbatim>\<open>json.loads\<close> makes of them),
  whether the player exits within the grace period after SIGTERM, the file system
  as far as it is read, whether \<^verbatim>\<open>Popen\<close> fails, whether the spawned player has
  created its socket when the settle interval ends and whether it has already
  exited by then (a file it cannot play), the successive runs of the
  picker (return code and stripped output) and lines typed at \<^verbatim>\<open>input\<close>, the
  number drawn by \<^verbatim>\<open>random\<close>, Python's reading of a string as a float, whether
  the player has exited on its own since the previous iteration, what appending
  to each of the two logs does, what \<^verbatim>\<open>get_song_info\<close> raises beyond the errors it
  catches (a song file that has vanished, an \<^verbatim>\<open>ffprobe\<close> that cannot be run), and
  which commands \<^verbatim>\<open>which\<close> finds.
\<close>

record env =
  clock :: rat
  stdin_key :: "string option"
  channel :: "pyval \<Rightarrow> chan_io"
  exits_on_sigterm :: bool
  home_dir :: string
  is_file :: "string \<Rightarrow> bool"
  popen_error :: "exn option"
  binds_endpoint :: bool
  picker_runs :: "fzf_out list"
  input_lines :: "string list"
  dir_entries :: "(string \<times> bool) list"
  glob_names :: "string \<Rightarrow> string \<Rightarrow> string list"
  stdin_isatty :: bool
  random_raw :: nat
  parse_float :: "string \<Rightarrow> pyfloat option"
  player_died :: bool
  exits_in_settle :: bool
  append_log :: "string \<Rightarrow> append_io"
  song_info_error :: "exn option"
  on_path :: "string \<Rightarrow> bool"

definition emit :: "effect \<Rightarrow> world \<Rightarrow> world" where
  "emit e w = w\<lparr>trace := trace w @ [e]\<rparr>"

definition print :: "string \<Rightarrow> world \<Rightarrow> world" where
  "print s w = emit (Stdout (s @ [CHR 0x0A])) w"

definition MPV_SOCKET :: string where
  "MPV_SOCKET = ''/tmp/mpv-musicplayer''"

definition SUPPORTED_EXTENSIONS :: "string list" where
  "SUPPORTED_EXTENSIONS = [''.mp3'', ''.wav'', ''.flac'', ''.aac'', ''.ogg'', ''.m4a'']"

text \<open>\<^verbatim>\<open>xs[i]\<close>: a negative index counts from the end; out of range raises.\<close>

definition py_index :: "'a list \<Rightarrow> int \<Rightarrow> exn + 'a" where
  "py_index xs i =
     (if 0 \<le> i \<and> i < int (length xs) then Inr (xs ! nat i)
      else if i < 0 \<and> - int (length xs) \<le> i then Inr (xs ! nat (int (length xs) + i))
      else Inl IndexError)"

text \<open>\<^verbatim>\<open>mpv_process and mpv_process.poll() is None\<close>.\<close>

definition player_alive :: "world \<Rightarrow> bool" where
  "player_alive w = (case mpv_process w of None \<Rightarrow> False | Some p \<Rightarrow> p \<in> set (live w))"

section \<open>Cleanup\<close>

text \<open>
  The statements that \<^verbatim>\<open>cleanup\<close> (lines 33-38) and \<^verbatim>\<open>play_song\<close> (lines 128-133)
  both open with: terminate a running player, wait two seconds for it, kill it
  when the wait times out. Either way the process is gone afterwards.
\<close>

definition stop_player :: "env \<Rightarrow> world \<Rightarrow> world" where
  "stop_player env w =
     (case mpv_process w of
        None \<Rightarrow> w
      | Some p \<Rightarrow>
         if p \<in> set (live w) then
           (let w1 = emit (Wait p 2) (emit (Terminate p) w);
                w2 = (if exits_on_sigterm env then w1 else emit (Kill p) w1)
            in w2\<lparr>live := removeAll p (live w2)\<rparr>)
         else w)"

text \<open>Lines 39-40 and 135-136: \<^verbatim>\<open>if MPV_SOCKET.exists(): MPV_SOCKET.unlink()\<close>.\<close>

definition remove_socket :: "world \<Rightarrow> world" where
  "remove_socket w = (if sock w \<noteq> None then (emit Unlink w)\<lparr>sock := None\<rparr> else w)"

definition show_cursor :: "world \<Rightarrow> world" where
  "show_cursor w = emit (Stdout (ESC @ ''[?25h'')) w"

definition hide_cursor :: "world \<Rightarrow> world" where
  "hide_cursor w = emit (Stdout (ESC @ ''[?25l'')) w"

text \<open>\<^verbatim>\<open>cleanup()\<close> ends in \<^verbatim>\<open>sys.exit(0)\<close>: it never returns.\<close>

definition cleanup :: "env \<Rightarrow> world \<Rightarrow> 'a result \<times> world" where
  "cleanup env w =
     (let w1 = remove_socket (stop_player env w);
          w2 = print ''Goodbye!'' (emit Clear (show_cursor w1));
          w3 = (if old_termios_settings w2 \<and> stdin_isatty env then emit Tcsetattr w2 else w2)
      in (Raises (SystemExit 0), w3))"

definition signal_handler :: "env \<Rightarrow> world \<Rightarrow> 'a result \<times> world" where
  "signal_handler env w = cleanup env w"

section \<open>External tools\<close>

text \<open>
  \<^verbatim>\<open>run_fzf\<close>: the selection when the picker returns 0, None otherwise; a missing
  picker prints, then calls \<^verbatim>\<open>cleanup()\<close>, which exits.
\<close>

definition run_fzf :: "env \<Rightarrow> fzf_out \<Rightarrow> world \<Rightarrow> string option result \<times> world" where
  "run_fzf env out w =
     (case out of
        FzfDone returncode stdout \<Rightarrow> (Returns (if returncode = 0 then Some stdout else None), w)
      | FzfMissing \<Rightarrow>
          cleanup env (print ''Error: 'fzf' command not found. Please install fzf.'' w))"

section \<open>Folder and song management\<close>

definition falsy :: "string option \<Rightarrow> bool" where
  "falsy selected = (selected = None \<or> selected = Some [])"

text \<open>
  The \<^verbatim>\<open>while not selected\<close> loop of \<^verbatim>\<open>select_folder\<close>: one picker run per round,
  and, when that run selects nothing, the prompt that \<^verbatim>\<open>input\<close> writes and one line
  read by it; \<^verbatim>\<open>y\<close> there calls \<^verbatim>\<open>cleanup()\<close>. The recursion is on the recorded picker
  runs.
\<close>

definition quit_prompt :: string where
  "quit_prompt = ''No folder selected. Quit? (y/n) ''"

fun select_folder_loop ::
  "env \<Rightarrow> fzf_out list \<Rightarrow> string list \<Rightarrow> world \<Rightarrow> string result \<times> world" where
  "select_folder_loop env [] answers w = (Pending, print ''No folder selected.'' w)"
| "select_folder_loop env (out # outs) answers w =
     (case run_fzf env out (print ''No folder selected.'' w) of
        (Returns selected, w1) \<Rightarrow>
          if falsy selected then
            (case answers of
               [] \<Rightarrow> (Pending, emit (Stdout quit_prompt) w1)
             | a # answers' \<Rightarrow>
                 if a = ''y'' \<or> a = ''Y'' then cleanup env (emit (Stdout quit_prompt) w1)
                 else select_folder_loop env outs answers' (emit (Stdout quit_prompt) w1))
          else (Returns (the selected), w1)
      | (Raises e, w1) \<Rightarrow> (Raises e, w1)
      | (Pending, w1) \<Rightarrow> (Pending, w1))"

text \<open>
  \<^verbatim>\<open>select_folder()\<close>: the visible directories, sorted; none is fatal (exit 1); the
  default folder when present, the picker otherwise.
\<close>

definition visible_folders :: "env \<Rightarrow> string list" where
  "visible_folders env =
     sort (map fst (filter (\<lambda>(name, is_dir). is_dir \<and> \<not> (name \<noteq> [] \<and> hd name = CHR ''.''))
                           (dir_entries env)))"

definition default_missing :: string where
  "default_missing = ''Default folder 'Unni_Menon' not found. Please select a folder:''"

definition select_folder_first ::
  "env \<Rightarrow> string list \<Rightarrow> world \<Rightarrow> string option result \<times> fzf_out list \<times> world" where
  "select_folder_first env folders w =
     (if ''Unni_Menon'' \<in> set folders then (Returns (Some ''Unni_Menon''), picker_runs env, w)
      else
        (case picker_runs env of
           [] \<Rightarrow> (Pending, [], print default_missing w)
         | out # outs \<Rightarrow>
             (case run_fzf env out (print default_missing w) of
                (r, w1) \<Rightarrow> (r, outs, w1))))"

definition select_folder :: "env \<Rightarrow> world \<Rightarrow> unit result \<times> world" where
  "select_folder env w =
     (let folders = visible_folders env in
      if folders = [] then
        (Raises (SystemExit 1), print ''No music folders found in the current directory.'' w)
      else
        (case select_folder_first env folders w of
           (Returns selected, outs, w1) \<Rightarrow>
             (case (if falsy selected then select_folder_loop env outs (input_lines env) w1
                    else (Returns (the selected), w1)) of
                (Returns folder, w2) \<Rightarrow> (Returns (), w2\<lparr>current_folder := folder\<rparr>)
              | (Raises e, w2) \<Rightarrow> (Raises e, w2)
              | (Pending, w2) \<Rightarrow> (Pending, w2))
         | (Raises e, outs, w1) \<Rightarrow> (Raises e, w1)
         | (Pending, outs, w1) \<Rightarrow> (Pending, w1)))"

definition upper_char :: "char \<Rightarrow> char" where
  "upper_char c =
     (if (97 :: nat) \<le> of_char c \<and> of_char c \<le> (122 :: nat) then char_of (of_char c - (32 :: nat))
      else c)"

text \<open>
  \<^verbatim>\<open>get_songs()\<close>: the names matching \<^verbatim>\<open>*ext\<close> and \<^verbatim>\<open>*EXT\<close> for every supported
  extension, without duplicates, sorted; an empty list is fatal (exit 1).
\<close>

definition get_songs :: "env \<Rightarrow> world \<Rightarrow> unit result \<times> world" where
  "get_songs env w =
     (let found_songs =
            concat (map (\<lambda>ext. glob_names env (current_folder w) (''*'' @ ext)
                               @ glob_names env (current_folder w) (''*'' @ map upper_char ext))
                        SUPPORTED_EXTENSIONS);
          w1 = w\<lparr>songs := sort (remdups found_songs)\<rparr>
      in if songs w1 = [] then
           (Raises (SystemExit 1),
            print (''No songs found in folder '' @ [CHR 0x27] @ current_folder w @ [CHR 0x27]) w1)
         else (Returns (), w1))"

text \<open>\<^verbatim>\<open>song_names.index(name)\<close>: the first position of the name, if any.\<close>

fun index_of :: "'a list \<Rightarrow> 'a \<Rightarrow> nat option" where
  "index_of [] x = None"
| "index_of (y # ys) x = (if y = x then Some 0 else map_option Suc (index_of ys x))"

text \<open>\<^verbatim>\<open>choose_song()\<close>: True when the picker's selection is a song of the list.\<close>

definition choose_song :: "env \<Rightarrow> world \<Rightarrow> bool result \<times> world" where
  "choose_song env w =
     (case picker_runs env of
        [] \<Rightarrow> (Pending, w)
      | out # outs \<Rightarrow>
         (case run_fzf env out w of
            (Returns selected_song_name, w1) \<Rightarrow>
              if \<not> falsy selected_song_name then
                (case index_of (songs w1) (the selected_song_name) of
                   Some i \<Rightarrow> (Returns True, w1\<lparr>current_song_index := int i\<rparr>)
                 | None \<Rightarrow> (Returns False, w1))
              else (Returns False, w1)
          | (Raises e, w1) \<Rightarrow> (Raises e, w1)
          | (Pending, w1) \<Rightarrow> (Pending, w1)))"

section \<open>Player control\<close>

definition mpris_candidates :: "env \<Rightarrow> string list" where
  "mpris_candidates env =
     [home_dir env @ ''/.config/mpv/scripts/mpris.so'',
      ''/usr/share/mpv/scripts/mpris.so'',
      ''/usr/local/share/mpv/scripts/mpris.so'']"

definition mpris_arg :: "env \<Rightarrow> string list" where
  "mpris_arg env =
     (case filter (is_file env) (mpris_candidates env) of
        [] \<Rightarrow> []
      | p # _ \<Rightarrow> [''--script'', p])"

definition song_path :: "world \<Rightarrow> string \<Rightarrow> string" where
  "song_path w name = current_folder w @ ''/'' @ name"

definition mpv_command :: "env \<Rightarrow> string \<Rightarrow> string list" where
  "mpv_command env path =
     [''mpv'', ''--no-video'', ''--quiet'', ''--input-terminal=no'',
      ''--input-ipc-server='' @ MPV_SOCKET] @ mpris_arg env @ [path]"

text \<open>
  \<^verbatim>\<open>play_song()\<close>: stop the running player, remove the socket file, spawn the player
  on the current song, sleep one second (in which the new player creates its
  socket, or does not, and keeps running, or exits), ask for a full redraw.
\<close>

definition play_song :: "env \<Rightarrow> world \<Rightarrow> unit result \<times> world" where
  "play_song env w =
     (let w1 = remove_socket (stop_player env w) in
      case py_index (songs w1) (current_song_index w1) of
        Inl e \<Rightarrow> (Raises e, w1)
      | Inr name \<Rightarrow>
         (case popen_error env of
            Some e \<Rightarrow> (Raises e, w1)
          | None \<Rightarrow>
             (let p = next_pid w1;
                  w2 = (emit (Popen (mpv_command env (song_path w1 name))) w1)
                         \<lparr>mpv_process := Some p, live := live w1 @ [p], next_pid := Suc p\<rparr>;
                  w3 = emit (Sleep 1) w2;
                  w4 = (if binds_endpoint env then w3\<lparr>sock := Some p\<rparr> else w3);
                  w5 = (if exits_in_settle env then w4\<lparr>live := removeAll p (live w4)\<rparr> else w4)
              in (Returns (), w5\<lparr>needs_full_redraw := True\<rparr>))))"

text \<open>The exceptions named by the \<^verbatim>\<open>except\<close> clause of \<^verbatim>\<open>send_mpv_command\<close>.\<close>

definition caught :: "exn \<Rightarrow> bool" where
  "caught e =
     (e = ConnectionRefusedError \<or> e = FileNotFoundError \<or> e = BrokenPipeError \<or> e = SocketTimeout)"

definition on_error :: "exn \<Rightarrow> world \<Rightarrow> pyval result \<times> world" where
  "on_error e w = (if caught e then (Returns PNone, w) else (Raises e, w))"

text \<open>
  \<^verbatim>\<open>send_mpv_command(command)\<close>: None at once when the socket file is absent;
  otherwise connect, send, receive once, and decode what was received. The
  \<^verbatim>\<open>except\<close> clause is around all of it, \<^verbatim>\<open>json.loads\<close> included.
\<close>

definition send_mpv_command :: "env \<Rightarrow> pyval \<Rightarrow> world \<Rightarrow> pyval result \<times> world" where
  "send_mpv_command env command w =
     (if sock w = None then (Returns PNone, w)
      else case channel env command of
             ConnectRaises e \<Rightarrow> on_error e w
           | SendallRaises e \<Rightarrow> on_error e w
           | RecvRaises e \<Rightarrow> on_error e (emit (Sent command) w)
           | Received response_data \<Rightarrow>
              (case response_data of
                 NoData \<Rightarrow> (Returns PNone, emit (Sent command) w)
               | LoadsRaises e \<Rightarrow> on_error e (emit (Sent command) w)
               | Decoded v \<Rightarrow> (Returns v, emit (Sent command) w)))"

definition get_property_command :: "string \<Rightarrow> pyval" where
  "get_property_command prop = PDict [(''command'', PList [PStr ''get_property'', PStr prop])]"

text \<open>\<^verbatim>\<open>d.get(k)\<close> on a dictionary.\<close>

definition dict_get :: "(string \<times> pyval) list \<Rightarrow> string \<Rightarrow> pyval" where
  "dict_get kvs k = (case map_of kvs k of None \<Rightarrow> PNone | Some v \<Rightarrow> v)"

text \<open>
  \<^verbatim>\<open>get_mpv_property(prop)\<close>: the \<^verbatim>\<open>data\<close> of a successful response. A truthy response
  that is no dictionary has no \<^verbatim>\<open>get\<close>.
\<close>

definition get_mpv_property :: "env \<Rightarrow> string \<Rightarrow> world \<Rightarrow> pyval result \<times> world" where
  "get_mpv_property env prop w =
     (case send_mpv_command env (get_property_command prop) w of
        (Returns response, w1) \<Rightarrow>
          if py_truthy response then
            (case response of
               PDict kvs \<Rightarrow>
                 if dict_get kvs ''error'' = PStr ''success'' then (Returns (dict_get kvs ''data''), w1)
                 else (Returns PNone, w1)
             | _ \<Rightarrow> (Raises AttributeError, w1))
          else (Returns PNone, w1)
      | (Raises e, w1) \<Rightarrow> (Raises e, w1)
      | (Pending, w1) \<Rightarrow> (Pending, w1))"

section \<open>Writing to the terminal\<close>

text \<open>Sequencing: the next statement runs when the previous one returned.\<close>

definition and_then ::
  "'a result \<times> world \<Rightarrow> ('a \<Rightarrow> world \<Rightarrow> 'b result \<times> world) \<Rightarrow> 'b result \<times> world" where
  "and_then r f =
     (case r of
        (Returns x, w) \<Rightarrow> f x w
      | (Raises e, w) \<Rightarrow> (Raises e, w)
      | (Pending, w) \<Rightarrow> (Pending, w))"

definition goto_line :: "int \<Rightarrow> string" where
  "goto_line total_lines = ESC @ ''[s'' @ ESC @ ''['' @ str_int total_lines @ '';1H''"

text \<open>
  \<^verbatim>\<open>update_progress_display\<close>: the cursor is moved before the line is computed, so
  that write has happened when computing the line raises.
\<close>

definition update_progress_display ::
  "(string \<Rightarrow> pyfloat option) \<Rightarrow> pyval \<Rightarrow> pyval \<Rightarrow> pyval \<Rightarrow> world \<Rightarrow> unit result \<times> world" where
  "update_progress_display str2f percent current_pos total_duration w =
     (let total_lines = 5 + int (length (songs w)) + 5;
          w1 = emit (Stdout (goto_line total_lines)) w
      in case progress_line str2f percent current_pos total_duration of
           Inl e \<Rightarrow> (Raises e, w1)
         | Inr line \<Rightarrow>
             (Returns (), emit (Stdout (ESC @ ''[u'')) (emit (Stdout (ESC @ ''[K'' @ line)) w1)))"

text \<open>
  \<^verbatim>\<open>get_song_info()\<close>: the four strings it returns are not modelled, its failures
  are: the current song, \<^verbatim>\<open>songs[current_song_index]\<close>, is read first; what it does
  after that (\<^verbatim>\<open>stat\<close>, running \<^verbatim>\<open>ffprobe\<close>, reading its output) raises what the
  surroundings say, or nothing.
\<close>

definition get_song_info :: "env \<Rightarrow> world \<Rightarrow> unit result" where
  "get_song_info env w =
     (case py_index (songs w) (current_song_index w) of
        Inl e \<Rightarrow> Raises e
      | Inr name \<Rightarrow>
         (case song_info_error env of
            Some e \<Rightarrow> Raises e
          | None \<Rightarrow> Returns ()))"

text \<open>
  \<^verbatim>\<open>draw_full_interface\<close>: \<^verbatim>\<open>get_song_info()\<close> is called before anything is written;
  the screen that follows is one effect here.
\<close>

definition draw_full_interface :: "env \<Rightarrow> world \<Rightarrow> unit result \<times> world" where
  "draw_full_interface env w =
     (case get_song_info env w of
        Raises e \<Rightarrow> (Raises e, w)
      | Pending \<Rightarrow> (Pending, w)
      | Returns _ \<Rightarrow> (Returns (), emit DrawFullInterface w))"

definition show_feedback :: "string \<Rightarrow> string \<Rightarrow> rat \<Rightarrow> world \<Rightarrow> world" where
  "show_feedback message color_code duration w =
     (let total_lines = 5 + int (length (songs w)) + 4;
          w1 = emit (Stdout (goto_line total_lines @ ESC @ ''[K'' @ ESC @ ''['' @ color_code @ ''m''
                              @ message @ ESC @ ''[0m'' @ ESC @ ''[u'')) w;
          w2 = emit (Sleep duration) w1
      in emit (Stdout (goto_line total_lines @ ESC @ ''[K'' @ ESC @ ''[u'')) w2)"

section \<open>Main application logic\<close>

text \<open>\<^verbatim>\<open>random.randint(a, b)\<close>: a number of \<open>a..b\<close>, both ends included.\<close>

definition randint :: "env \<Rightarrow> int \<Rightarrow> int \<Rightarrow> exn + int" where
  "randint env a b =
     (if b < a then Inl ValueError else Inr (a + int (random_raw env) mod (b - a + 1)))"

text \<open>\<^verbatim>\<open>current_song_index = (current_song_index + 1) % len(songs)\<close>.\<close>

definition circular_advance :: "world \<Rightarrow> unit result \<times> world" where
  "circular_advance w =
     (if songs w = [] then (Raises ZeroDivisionError, w)
      else (Returns (),
            w\<lparr>current_song_index := (current_song_index w + 1) mod int (length (songs w))\<rparr>))"

text \<open>Lines 328-346 of \<^verbatim>\<open>main\<close>, before the \<^verbatim>\<open>try\<close>.\<close>

definition main_startup :: "env \<Rightarrow> world \<Rightarrow> unit result \<times> world" where
  "main_startup env w =
     (if \<not> stdin_isatty env then
        (Raises (SystemExit 1), print ''This script requires an interactive terminal.'' w)
      else
        (let w1 = emit Signal_handlers
                    (emit Setcbreak ((emit Tcgetattr w)\<lparr>old_termios_settings := True\<rparr>))
         in and_then (select_folder env w1) (\<lambda>_ w2.
            and_then (get_songs env w2) (\<lambda>_ w3.
              (case randint env 0 (int (length (songs w3)) - 1) of
                 Inl e \<Rightarrow> (Raises e, w3)
               | Inr i \<Rightarrow>
                   and_then (play_song env (w3\<lparr>current_song_index := i\<rparr>)) (\<lambda>_ w4.
                     (Returns (), (hide_cursor w4)\<lparr>last_progress_update := 0\<rparr>)))))))"

text \<open>Lines 352-355: the full redraw when it is due.\<close>

definition main_redraw :: "env \<Rightarrow> world \<Rightarrow> unit result \<times> world" where
  "main_redraw env w =
     (if needs_full_redraw w then
        and_then (draw_full_interface env w) (\<lambda>_ w1.
          (Returns (), w1\<lparr>needs_full_redraw := False, last_progress_update := 0\<rparr>))
      else (Returns (), w))"

text \<open>Lines 357-362: the status poll, at most once per second.\<close>

definition main_poll :: "env \<Rightarrow> world \<Rightarrow> unit result \<times> world" where
  "main_poll env w =
     (if 1 \<le> clock env - last_progress_update w then
        and_then (get_mpv_property env ''percent-pos'' w) (\<lambda>percent w1.
        and_then (get_mpv_property env ''time-pos'' w1) (\<lambda>pos w2.
        and_then (get_mpv_property env ''duration'' w2) (\<lambda>dur w3.
        and_then (update_progress_display (parse_float env) percent pos dur w3) (\<lambda>_ w4.
          (Returns (), w4\<lparr>last_progress_update := clock env\<rparr>)))))
      else (Returns (), w))"

text \<open>Lines 364-366: the player has exited, so the next song is started.\<close>

definition main_player_exit :: "env \<Rightarrow> world \<Rightarrow> unit result \<times> world" where
  "main_player_exit env w = and_then (circular_advance w) (\<lambda>_ w1. play_song env w1)"

definition pause_command :: pyval where
  "pause_command = PDict [(''command'', PList [PStr ''cycle'', PStr ''pause''])]"

definition seek_command :: "int \<Rightarrow> pyval" where
  "seek_command n = PDict [(''command'', PList [PStr ''seek'', PInt n, PStr ''relative''])]"

definition LIKES_FILE :: string where
  "LIKES_FILE = ''likes.txt''"

definition DISLIKES_FILE :: string where
  "DISLIKES_FILE = ''dislikes.txt''"

text \<open>
  Lines 372-374, the \<open>like\<close> key: the log is opened first, then the line is built
  (which reads \<^verbatim>\<open>songs[current_song_index]\<close>) and written; the message is shown
  when the \<^verbatim>\<open>with\<close> block has ended without an exception.
\<close>

definition main_like :: "env \<Rightarrow> world \<Rightarrow> unit result \<times> world" where
  "main_like env w =
     (case append_log env LIKES_FILE of
        OpenRaises e \<Rightarrow> (Raises e, w)
      | WriteRaises e k \<Rightarrow>
         (case py_index (songs w) (current_song_index w) of
            Inl e' \<Rightarrow> (Raises e', w)
          | Inr name \<Rightarrow>
              (Raises e,
               w\<lparr>likes_file :=
                    likes_file w @ take k (current_folder w @ ''/'' @ name @ [CHR 0x0A])\<rparr>))
      | Appended \<Rightarrow>
         (case py_index (songs w) (current_song_index w) of
            Inl e' \<Rightarrow> (Raises e', w)
          | Inr name \<Rightarrow>
              (Returns (),
               show_feedback ''Liked!'' ''1;32'' 1
                 (w\<lparr>likes_file :=
                      likes_file w @ current_folder w @ ''/'' @ name @ [CHR 0x0A]\<rparr>))))"

text \<open>Lines 376-378, the \<open>dislike\<close> key.\<close>

definition main_dislike :: "env \<Rightarrow> world \<Rightarrow> unit result \<times> world" where
  "main_dislike env w =
     (case append_log env DISLIKES_FILE of
        OpenRaises e \<Rightarrow> (Raises e, w)
      | WriteRaises e k \<Rightarrow>
         (case py_index (songs w) (current_song_index w) of
            Inl e' \<Rightarrow> (Raises e', w)
          | Inr name \<Rightarrow>
              (Raises e,
               w\<lparr>dislikes_file :=
                    dislikes_file w @ take k (current_folder w @ ''/'' @ name @ [CHR 0x0A])\<rparr>))
      | Appended \<Rightarrow>
         (case py_index (songs w) (current_song_index w) of
            Inl e' \<Rightarrow> (Raises e', w)
          | Inr name \<Rightarrow>
              (Returns (),
               show_feedback ''Disliked!'' ''1;31'' 1
                 (w\<lparr>dislikes_file :=
                      dislikes_file w @ current_folder w @ ''/'' @ name @ [CHR 0x0A]\<rparr>))))"

text \<open>The \<^verbatim>\<open>if\<close>/\<^verbatim>\<open>elif\<close> chain on the key, lines 371-399.\<close>

definition key_action :: "env \<Rightarrow> string \<Rightarrow> world \<Rightarrow> unit result \<times> world" where
  "key_action env key w =
     (if key = ''l'' \<or> key = ''L'' then main_like env w
      else if key = ''d'' \<or> key = ''D'' then main_dislike env w
      else if key = ''n'' \<or> key = ''N'' then
        and_then (circular_advance w) (\<lambda>_ w1. play_song env w1)
      else if key = ''s'' \<or> key = ''S'' then
        and_then (choose_song env w) (\<lambda>chosen w1.
          if chosen then play_song env w1 else (Returns (), w1\<lparr>needs_full_redraw := True\<rparr>))
      else if key = ''c'' \<or> key = ''C'' then
        and_then (select_folder env w) (\<lambda>_ w1.
        and_then (get_songs env w1) (\<lambda>_ w2.
          play_song env (w2\<lparr>current_song_index := 0\<rparr>)))
      else if key = ''q'' \<or> key = ''Q'' then cleanup env w
      else if key = ''p'' \<or> key = ''P'' \<or> key = '' '' then
        and_then (send_mpv_command env pause_command w) (\<lambda>_ w1. (Returns (), w1))
      else if key = ''b'' \<or> key = ''B'' then
        and_then (send_mpv_command env (seek_command (- 5)) w) (\<lambda>_ w1. (Returns (), w1))
      else if key = ''f'' \<or> key = ''F'' then
        and_then (send_mpv_command env (seek_command 5) w) (\<lambda>_ w1. (Returns (), w1))
      else (Returns (), w))"

text \<open>The keys of line 401, after which no full redraw is asked for.\<close>

definition quiet_keys :: "string list" where
  "quiet_keys = [''p'', ''P'', '' '', ''b'', ''B'', ''f'', ''F'', ''l'', ''L'', ''d'', ''D'']"

text \<open>Lines 370-402: what a key that was read does.\<close>

definition main_key :: "env \<Rightarrow> string \<Rightarrow> world \<Rightarrow> unit result \<times> world" where
  "main_key env key w =
     and_then (key_action env key w) (\<lambda>_ w1.
       (Returns (), if List.member quiet_keys key then w1 else w1\<lparr>needs_full_redraw := True\<rparr>))"

text \<open>\<^verbatim>\<open>get_key()\<close>: the character read, None when nothing is waiting.\<close>

definition get_key :: "env \<Rightarrow> string option" where
  "get_key env = stdin_key env"

text \<open>
  Lines 364-404: the test for the exited player, whose branch ends in
  \<^verbatim>\<open>continue\<close> (no key is read and the pass does not sleep), then the key and the
  sleep of a tenth of a second.
\<close>

definition main_dispatch :: "env \<Rightarrow> world \<Rightarrow> unit result \<times> world" where
  "main_dispatch env w =
     (if mpv_process w \<noteq> None \<and> \<not> player_alive w then main_player_exit env w
      else
        and_then (if falsy (get_key env) then (Returns (), w)
                  else main_key env (the (get_key env)) w) (\<lambda>_ w1.
          (Returns (), emit (Sleep (1 / 10)) w1)))"

text \<open>One pass through the body of \<^verbatim>\<open>while True\<close>.\<close>

definition main_loop_body :: "env \<Rightarrow> world \<Rightarrow> unit result \<times> world" where
  "main_loop_body env w =
     and_then (main_redraw env w) (\<lambda>_ w1.
     and_then (main_poll env w1) (\<lambda>_ w2. main_dispatch env w2))"

text \<open>
  \<^verbatim>\<open>try: ... finally: cleanup()\<close>: whatever is raised in the body, \<^verbatim>\<open>cleanup()\<close> runs
  and its \<^verbatim>\<open>sys.exit(0)\<close> replaces the exception.
\<close>

definition main_iteration :: "env \<Rightarrow> world \<Rightarrow> unit result \<times> world" where
  "main_iteration env w =
     (case main_loop_body env w of
        (Returns x, w1) \<Rightarrow> (Returns x, w1)
      | (Raises e, w1) \<Rightarrow> cleanup env w1
      | (Pending, w1) \<Rightarrow> (Pending, w1))"

text \<open>
  A termination signal delivered while the loop runs: the handler's \<^verbatim>\<open>sys.exit(0)\<close>
  is raised inside the \<^verbatim>\<open>try\<close>, so \<^verbatim>\<open>cleanup()\<close> runs once more.
\<close>

definition main_signal :: "env \<Rightarrow> world \<Rightarrow> unit result \<times> world" where
  "main_signal env w =
     (case signal_handler env w of
        (Returns x, w1) \<Rightarrow> (Returns x, w1)
      | (Raises e, w1) \<Rightarrow> cleanup env w1
      | (Pending, w1) \<Rightarrow> (Pending, w1))"

text \<open>The player exits on its own: it is no longer running; its socket file stays.\<close>

definition player_exits :: "world \<Rightarrow> world" where
  "player_exits w =
     (case mpv_process w of None \<Rightarrow> w | Some p \<Rightarrow> w\<lparr>live := removeAll p (live w)\<rparr>)"

text \<open>
  The loop, one element of the list per pass; \<open>Pending\<close> when the passes recorded are
  used up and the program is still running.
\<close>

fun main_loop :: "env list \<Rightarrow> world \<Rightarrow> unit result \<times> world" where
  "main_loop [] w = (Pending, w)"
| "main_loop (env # envs) w =
     (case main_iteration env (if player_died env then player_exits w else w) of
        (Returns _, w1) \<Rightarrow> main_loop envs w1
      | (Raises e, w1) \<Rightarrow> (Raises e, w1)
      | (Pending, w1) \<Rightarrow> (Pending, w1))"

definition main :: "env \<Rightarrow> env list \<Rightarrow> world \<Rightarrow> unit result \<times> world" where
  "main env0 envs w = and_then (main_startup env0 w) (\<lambda>_ w1. main_loop envs w1)"

text \<open>
  Lines 408-414, what running the script does: each of the three commands is
  looked up with \<^verbatim>\<open>which\<close>, and the first one missing ends the program with status 1
  before \<^verbatim>\<open>main\<close> is called.
\<close>

fun check_commands :: "env \<Rightarrow> string list \<Rightarrow> world \<Rightarrow> unit result \<times> world" where
  "check_commands env [] w = (Returns (), w)"
| "check_commands env (cmd # cmds) w =
     (if on_path env cmd then check_commands env cmds w
      else (Raises (SystemExit 1),
            print (''Error: Required command '' @ [CHR 0x27] @ cmd @ [CHR 0x27]
                    @ '' not found in PATH.'') w))"

definition run_script :: "env \<Rightarrow> env list \<Rightarrow> world \<Rightarrow> unit result \<times> world" where
  "run_script env0 envs w =
     and_then (check_commands env0 [''mpv'', ''fzf'', ''ffprobe''] w) (\<lambda>_ w1. main env0 envs w1)"

text \<open>The globals as the module initialises them (lines 22-27).\<close>

definition initial_globals :: "world \<Rightarrow> bool" where
  "initial_globals w =
     (mpv_process w = None \<and> current_folder w = [] \<and> songs w = [] \<and> current_song_index w = 0
      \<and> needs_full_redraw w \<and> \<not> old_termios_settings w \<and> live w = [])"

section \<open>A session used in the examples\<close>

text \<open>
  Folder \<open>X\<close> with three tracks, the last one playing in process 0, whose socket
  exists; and surroundings in which nothing happens: no key, a player that
  answers nothing, exits on SIGTERM, binds its socket when spawned and keeps
  running, logs that can be written and the three commands installed.
\<close>

definition three_tracks :: world where
  "three_tracks =
     \<lparr>mpv_process = Some 0, current_folder = ''X'',
      songs = [''a.mp3'', ''b.mp3'', ''c.mp3''], current_song_index = 2,
      needs_full_redraw = False, old_termios_settings = True, last_progress_update = 0,
      live = [0], next_pid = 1, sock = Some 0, likes_file = [], dislikes_file = [],
      trace = []\<rparr>"

definition quiet_env :: env where
  "quiet_env =
     \<lparr>clock = 0, stdin_key = None, channel = (\<lambda>c. Received NoData), exits_on_sigterm = True,
      home_dir = ''/home/u'', is_file = (\<lambda>p. False), popen_error = None,
      binds_endpoint = True, picker_runs = [], input_lines = [], dir_entries = [],
      glob_names = (\<lambda>folder pattern. []), stdin_isatty = True, random_raw = 0,
      parse_float = (\<lambda>s. None), player_died = False, exits_in_settle = False,
      append_log = (\<lambda>path. Appended), song_info_error = None, on_path = (\<lambda>cmd. True)\<rparr>"

text \<open>
  The same session when the player refuses the connection, and when it answers
  the pause request with a success response.
\<close>

definition refusing_env :: env where
  "refusing_env = quiet_env\<lparr>channel := (\<lambda>c. ConnectRaises ConnectionRefusedError)\<rparr>"

definition success_response :: pyval where
  "success_response = PDict [(''data'', PNone), (''error'', PStr ''success'')]"

definition answering_env :: env where
  "answering_env = quiet_env\<lparr>channel := (\<lambda>c. Received (Decoded success_response))\<rparr>"

text \<open>
  The same session when the player answers with bytes that are not one JSON
  document (two replies in one read), and with bytes that are in no Unicode
  encoding (\<^verbatim>\<open>ff fe fd\<close>).
\<close>

definition garbled_env :: env where
  "garbled_env = quiet_env\<lparr>channel := (\<lambda>c. Received (LoadsRaises JSONDecodeError))\<rparr>"

definition not_unicode_env :: env where
  "not_unicode_env = quiet_env\<lparr>channel := (\<lambda>c. Received (LoadsRaises UnicodeDecodeError))\<rparr>"

text \<open>
  The program before it has done anything, and surroundings with the default
  folder holding two tracks.
\<close>

definition fresh_world :: world where
  "fresh_world =
     \<lparr>mpv_process = None, current_folder = [], songs = [], current_song_index = 0,
      needs_full_redraw = True, old_termios_settings = False, last_progress_update = 0,
      live = [], next_pid = 0, sock = None, likes_file = [], dislikes_file = [],
      trace = []\<rparr>"

definition library_env :: env where
  "library_env =
     quiet_env\<lparr>dir_entries := [(''Unni_Menon'', True)],
               glob_names := (\<lambda>folder pattern.
                  if pattern = ''*.mp3'' then [''b.mp3'', ''a.mp3''] else []),
               random_raw := 5\<rparr>"

text \<open>Folder \<open>X\<close> with the single track \<open>y.mp3\<close>.\<close>

definition one_track :: world where
  "one_track = three_tracks\<lparr>songs := [''y.mp3''], current_song_index := 0\<rparr>"

text \<open>
  A player that has not created its socket when the settle interval ends; and
  one that exits at once.
\<close>

definition slow_player_env :: env where
  "slow_player_env = quiet_env\<lparr>binds_endpoint := False\<rparr>"

definition short_lived_env :: env where
  "short_lived_env = quiet_env\<lparr>exits_in_settle := True\<rparr>"

text \<open>The \<open>like\<close> key when the log may not be written.\<close>

definition read_only_env :: env where
  "read_only_env =
     quiet_env\<lparr>stdin_key := Some ''l'', append_log := (\<lambda>path. OpenRaises PermissionError)\<rparr>"

text \<open>
  The script started in a terminal, all three commands installed, in a directory
  with a file and no folder; and the same with a folder of no songs.
\<close>

definition no_folder_env :: env where
  "no_folder_env = quiet_env\<lparr>dir_entries := [(''notes.txt'', False)]\<rparr>"

definition no_songs_env :: env where
  "no_songs_env = quiet_env\<lparr>dir_entries := [(''Unni_Menon'', True)]\<rparr>"

text \<open>The same start when the picker is gone by the time the folder is to be chosen.\<close>

definition no_picker_env :: env where
  "no_picker_env = quiet_env\<lparr>dir_entries := [(''X'', True)], picker_runs := [FzfMissing]\<rparr>"

section \<open>Properties of a world\<close>

text \<open>The index points into a track list that is not empty.\<close>

definition index_in_range :: "world \<Rightarrow> bool" where
  "index_in_range w =
     (songs w \<noteq> [] \<and> 0 \<le> current_song_index w \<and> current_song_index w < int (length (songs w)))"

text \<open>Of the players spawned, none runs but the one the handle names.\<close>

definition at_most_one_player :: "world \<Rightarrow> bool" where
  "at_most_one_player w =
     (case mpv_process w of
        None \<Rightarrow> live w = []
      | Some p \<Rightarrow> live w = [] \<or> live w = [p])"

text \<open>The socket file exists and belongs to the running player of the handle.\<close>

definition endpoint_valid :: "world \<Rightarrow> bool" where
  "endpoint_valid w = (sock w \<noteq> None \<and> sock w = mpv_process w \<and> player_alive w)"



fun is_raise :: "'a result \<Rightarrow> bool" where
  "is_raise (Raises e) = True"
| "is_raise (Returns x) = False"
| "is_raise Pending = False"


text \<open>The transient message of \<^verbatim>\<open>show_feedback\<close>: written, kept for the duration, erased.\<close>

definition flash_events :: "string \<Rightarrow> string \<Rightarrow> rat \<Rightarrow> world \<Rightarrow> effect list" where
  "flash_events message color_code duration w =
     [Stdout (goto_line (5 + int (length (songs w)) + 4) @ ESC @ ''[K'' @ ESC @ ''['' @ color_code
               @ ''m'' @ message @ ESC @ ''[0m'' @ ESC @ ''[u''),
      Sleep duration,
      Stdout (goto_line (5 + int (length (songs w)) + 4) @ ESC @ ''[K'' @ ESC @ ''[u'')]"

text \<open>
  The bar as the specification describes it: fifty cells, of which a share
  proportional to the percentage is filled (one cell per two percent), and the
  percentage in digits.
\<close>

definition bar_text :: "int \<Rightarrow> string" where
  "bar_text percent =
     ''['' @ ESC @ ''[1;36m'' @ concat (replicate (nat (percent div 2)) full_block)
       @ concat (replicate (nat (50 - percent div 2)) light_shade)
       @ ESC @ ''[0m] '' @ str_int percent @ ''%''"

text \<open>
  A percentage for which the loading text is shown: None, or one whose float
  (the float of 0 for a falsy one) is not greater than zero.
\<close>

definition shows_loading :: "(string \<Rightarrow> pyfloat option) \<Rightarrow> pyval \<Rightarrow> bool" where
  "shows_loading str2f v =
     (v = PNone
      \<or> (case py_float str2f (py_or v (PInt 0)) of
            Inl e \<Rightarrow> False
          | Inr f \<Rightarrow> \<not> float_gt_zero f))"

text \<open>
  A time that the formatter has a text for: None, a value that \<^verbatim>\<open>float\<close> rejects
  with ValueError or TypeError, a NaN, or a value that \<^verbatim>\<open>float\<close> turns into a finite
  double.
\<close>

definition time_ok :: "(string \<Rightarrow> pyfloat option) \<Rightarrow> pyval \<Rightarrow> bool" where
  "time_ok str2f v =
     (v = PNone
      \<or> (case py_float str2f v of
            Inl e \<Rightarrow> e = ValueError \<or> e = TypeError
          | Inr (Fin r) \<Rightarrow> True
          | Inr PosInf \<Rightarrow> False
          | Inr NegInf \<Rightarrow> False
          | Inr NaN \<Rightarrow> True))"

text \<open>
  The track list and the index are the same in two worlds. Most operations keep
  them in every outcome, also when they raise.
\<close>

definition same_tracks :: "world \<Rightarrow> world \<Rightarrow> bool" where
  "same_tracks w w' = (songs w' = songs w \<and> current_song_index w' = current_song_index w)"

text \<open>
  Redrawing and polling touch only the terminal, the redraw flag and the time of
  the last poll.
\<close>

definition only_display :: "world \<Rightarrow> world \<Rightarrow> bool" where
  "only_display w w' =
     (mpv_process w' = mpv_process w \<and> current_folder w' = current_folder w
      \<and> songs w' = songs w \<and> current_song_index w' = current_song_index w
      \<and> old_termios_settings w' = old_termios_settings w \<and> live w' = live w
      \<and> next_pid w' = next_pid w \<and> sock w' = sock w
      \<and> likes_file w' = likes_file w \<and> dislikes_file w' = dislikes_file w)"

section \<open>What each operation leaves alone\<close>

lemma emit_fields [simp]:
  "mpv_process (emit e w) = mpv_process w"
  "current_folder (emit e w) = current_folder w"
  "songs (emit e w) = songs w"
  "current_song_index (emit e w) = current_song_index w"
  "needs_full_redraw (emit e w) = needs_full_redraw w"
  "old_termios_settings (emit e w) = old_termios_settings w"
  "last_progress_update (emit e w) = last_progress_update w"
  "live (emit e w) = live w"
  "next_pid (emit e w) = next_pid w"
  "sock (emit e w) = sock w"
  "likes_file (emit e w) = likes_file w"
  "dislikes_file (emit e w) = dislikes_file w"
  "trace (emit e w) = trace w @ [e]"
  by (simp_all add: emit_def)

lemma print_fields [simp]:
  "mpv_process (print s w) = mpv_process w"
  "current_folder (print s w) = current_folder w"
  "songs (print s w) = songs w"
  "current_song_index (print s w) = current_song_index w"
  "needs_full_redraw (print s w) = needs_full_redraw w"
  "old_termios_settings (print s w) = old_termios_settings w"
  "live (print s w) = live w"
  "next_pid (print s w) = next_pid w"
  "sock (print s w) = sock w"
  "likes_file (print s w) = likes_file w"
  "dislikes_file (print s w) = dislikes_file w"
  by (simp_all add: print_def)

lemma stop_player_fields [simp]:
  "mpv_process (stop_player env w) = mpv_process w"
  "current_folder (stop_player env w) = current_folder w"
  "songs (stop_player env w) = songs w"
  "current_song_index (stop_player env w) = current_song_index w"
  "needs_full_redraw (stop_player env w) = needs_full_redraw w"
  "old_termios_settings (stop_player env w) = old_termios_settings w"
  "last_progress_update (stop_player env w) = last_progress_update w"
  "next_pid (stop_player env w) = next_pid w"
  "sock (stop_player env w) = sock w"
  "likes_file (stop_player env w) = likes_file w"
  "dislikes_file (stop_player env w) = dislikes_file w"
  by (simp_all add: stop_player_def Let_def split: option.splits)

lemma remove_socket_fields [simp]:
  "mpv_process (remove_socket w) = mpv_process w"
  "current_folder (remove_socket w) = current_folder w"
  "songs (remove_socket w) = songs w"
  "current_song_index (remove_socket w) = current_song_index w"
  "needs_full_redraw (remove_socket w) = needs_full_redraw w"
  "old_termios_settings (remove_socket w) = old_termios_settings w"
  "last_progress_update (remove_socket w) = last_progress_update w"
  "live (remove_socket w) = live w"
  "next_pid (remove_socket w) = next_pid w"
  "sock (remove_socket w) = None"
  "likes_file (remove_socket w) = likes_file w"
  "dislikes_file (remove_socket w) = dislikes_file w"
  by (simp_all add: remove_socket_def)

lemma show_cursor_fields [simp]:
  "mpv_process (show_cursor w) = mpv_process w"
  "current_folder (show_cursor w) = current_folder w"
  "songs (show_cursor w) = songs w"
  "current_song_index (show_cursor w) = current_song_index w"
  "old_termios_settings (show_cursor w) = old_termios_settings w"
  "live (show_cursor w) = live w"
  "sock (show_cursor w) = sock w"
  "likes_file (show_cursor w) = likes_file w"
  "dislikes_file (show_cursor w) = dislikes_file w"
  by (simp_all add: show_cursor_def)

lemma hide_cursor_fields [simp]:
  "mpv_process (hide_cursor w) = mpv_process w"
  "current_folder (hide_cursor w) = current_folder w"
  "songs (hide_cursor w) = songs w"
  "current_song_index (hide_cursor w) = current_song_index w"
  "live (hide_cursor w) = live w"
  "sock (hide_cursor w) = sock w"
  by (simp_all add: hide_cursor_def)

lemma show_feedback_fields [simp]:
  "mpv_process (show_feedback m c d w) = mpv_process w"
  "current_folder (show_feedback m c d w) = current_folder w"
  "songs (show_feedback m c d w) = songs w"
  "current_song_index (show_feedback m c d w) = current_song_index w"
  "needs_full_redraw (show_feedback m c d w) = needs_full_redraw w"
  "live (show_feedback m c d w) = live w"
  "sock (show_feedback m c d w) = sock w"
  "likes_file (show_feedback m c d w) = likes_file w"
  "dislikes_file (show_feedback m c d w) = dislikes_file w"
  by (simp_all add: show_feedback_def Let_def)

lemma same_tracks_refl [simp]: "same_tracks w w"
  by (simp add: same_tracks_def)

lemma same_tracks_trans: "same_tracks w w1 \<Longrightarrow> same_tracks w1 w2 \<Longrightarrow> same_tracks w w2"
  by (simp add: same_tracks_def)

lemma and_then_cases:
  "and_then r f =
     (case fst r of
        Returns x \<Rightarrow> f x (snd r)
      | Raises e \<Rightarrow> (Raises e, snd r)
      | Pending \<Rightarrow> (Pending, snd r))"
  by (cases r) (simp add: and_then_def split: result.splits)

lemma and_then_same_tracks:
  assumes "same_tracks w (snd r)"
    and "\<And>x w1. same_tracks w w1 \<Longrightarrow> same_tracks w (snd (f x w1))"
  shows "same_tracks w (snd (and_then r f))"
  using assms by (cases r) (auto simp: and_then_def split: result.splits)

lemma cleanup_same_tracks: "same_tracks w (snd (cleanup env w))"
  by (simp add: cleanup_def same_tracks_def Let_def)

lemma cleanup_raises: "fst (cleanup env w) = Raises (SystemExit 0)"
  by (simp add: cleanup_def Let_def)

lemma run_fzf_same_tracks: "same_tracks w (snd (run_fzf env out w))"
proof (cases out)
  case FzfMissing
  have "same_tracks (print ''Error: 'fzf' command not found. Please install fzf.'' w)
          (snd (cleanup env (print ''Error: 'fzf' command not found. Please install fzf.'' w)))"
    by (rule cleanup_same_tracks)
  then show ?thesis using FzfMissing by (simp add: run_fzf_def same_tracks_def)
next
  case (FzfDone rc s)
  then show ?thesis by (simp add: run_fzf_def)
qed

lemma play_song_same_tracks: "same_tracks w (snd (play_song env w))"
  by (simp add: play_song_def same_tracks_def Let_def split: sum.splits option.splits)

lemma play_song_folder: "current_folder (snd (play_song env w)) = current_folder w"
  by (simp add: play_song_def Let_def split: sum.splits option.splits)

lemma send_mpv_command_same_tracks: "same_tracks w (snd (send_mpv_command env c w))"
  by (simp add: send_mpv_command_def on_error_def same_tracks_def
           split: chan_io.splits recv_data.splits)

lemma get_mpv_property_same_tracks: "same_tracks w (snd (get_mpv_property env prop w))"
proof -
  obtain r w1 where s: "send_mpv_command env (get_property_command prop) w = (r, w1)"
    by (cases "send_mpv_command env (get_property_command prop) w")
  have "same_tracks w w1"
    using send_mpv_command_same_tracks [of w env "get_property_command prop"] s by simp
  then show ?thesis
    by (simp add: get_mpv_property_def s split: result.splits pyval.splits)
qed

lemma update_progress_display_same_tracks:
  "same_tracks w (snd (update_progress_display str2f p c t w))"
  by (simp add: update_progress_display_def same_tracks_def Let_def split: sum.splits)

lemma draw_full_interface_same_tracks: "same_tracks w (snd (draw_full_interface env w))"
  by (simp add: draw_full_interface_def same_tracks_def split: result.splits)

lemma main_redraw_same_tracks: "same_tracks w (snd (main_redraw env w))"
proof (cases "needs_full_redraw w")
  case False
  then show ?thesis by (simp add: main_redraw_def)
next
  case True
  have "same_tracks w (snd (and_then (draw_full_interface env w) (\<lambda>_ w1.
          (Returns (), w1\<lparr>needs_full_redraw := False, last_progress_update := 0\<rparr>))))"
    by (rule and_then_same_tracks) (simp_all add: draw_full_interface_same_tracks [unfolded same_tracks_def] same_tracks_def)
  then show ?thesis using True by (simp add: main_redraw_def)
qed

lemma main_poll_same_tracks: "same_tracks w (snd (main_poll env w))"
proof (cases "1 \<le> clock env - last_progress_update w")
  case False
  then show ?thesis by (simp add: main_poll_def)
next
  case True
  have "same_tracks w (snd (
        and_then (get_mpv_property env ''percent-pos'' w) (\<lambda>percent w1.
        and_then (get_mpv_property env ''time-pos'' w1) (\<lambda>pos w2.
        and_then (get_mpv_property env ''duration'' w2) (\<lambda>dur w3.
        and_then (update_progress_display (parse_float env) percent pos dur w3) (\<lambda>_ w4.
          (Returns (), w4\<lparr>last_progress_update := clock env\<rparr>)))))))"
    apply (rule and_then_same_tracks)
     apply (rule get_mpv_property_same_tracks)
    apply (rule and_then_same_tracks)
     apply (erule same_tracks_trans, rule get_mpv_property_same_tracks)
    apply (rule and_then_same_tracks)
     apply (erule same_tracks_trans, rule get_mpv_property_same_tracks)
    apply (rule and_then_same_tracks)
     apply (erule same_tracks_trans, rule update_progress_display_same_tracks)
    apply (simp add: same_tracks_def)
    done
  then show ?thesis using True by (simp add: main_poll_def)
qed

lemma select_folder_loop_same_tracks:
  "same_tracks w (snd (select_folder_loop env outs answers w))"
proof (induction outs arbitrary: answers w)
  case Nil
  then show ?case by (simp add: same_tracks_def)
next
  case (Cons out outs)
  obtain r w1 where r: "run_fzf env out (print ''No folder selected.'' w) = (r, w1)"
    by (cases "run_fzf env out (print ''No folder selected.'' w)")
  have "same_tracks (print ''No folder selected.'' w) w1"
    using run_fzf_same_tracks [of "print ''No folder selected.'' w" env out] r by simp
  then have w1: "same_tracks w w1" by (simp add: same_tracks_def)
  show ?case
  proof (cases r)
    case (Returns selected)
    show ?thesis
    proof (cases "falsy selected")
      case False
      then show ?thesis using r Returns w1 by simp
    next
      case True
      show ?thesis
      proof (cases answers)
        case Nil
        then show ?thesis using r Returns True w1 by (simp add: same_tracks_def)
      next
        case (Cons a answers')
        let ?w2 = "emit (Stdout quit_prompt) w1"
        have w2: "same_tracks w ?w2" using w1 by (simp add: same_tracks_def)
        have "same_tracks w (snd (cleanup env ?w2 :: string result \<times> world))"
          using w2 cleanup_same_tracks [of ?w2 env] by (rule same_tracks_trans)
        moreover have "same_tracks w (snd (select_folder_loop env outs answers' ?w2))"
          using w2 Cons.IH [of ?w2 answers'] by (rule same_tracks_trans)
        ultimately show ?thesis using r Returns True Cons by simp
      qed
    qed
  next
    case (Raises e)
    then show ?thesis using r w1 by simp
  next
    case Pending
    then show ?thesis using r w1 by simp
  qed
qed

lemma run_fzf_same_tracks_eq: "run_fzf env out w = (r, w1) \<Longrightarrow> same_tracks w w1"
  using run_fzf_same_tracks [of w env out] by simp

lemma select_folder_first_same_tracks:
  "select_folder_first env folders w = (r, outs, w1) \<Longrightarrow> same_tracks w w1"
  by (auto simp: select_folder_first_def same_tracks_def
           split: if_splits list.splits prod.splits dest!: run_fzf_same_tracks_eq)

lemma select_folder_same_tracks: "same_tracks w (snd (select_folder env w))"
proof (cases "visible_folders env = []")
  case True
  then show ?thesis by (simp add: select_folder_def same_tracks_def)
next
  case False
  obtain r outs w1 where f: "select_folder_first env (visible_folders env) w = (r, outs, w1)"
    by (cases "select_folder_first env (visible_folders env) w") auto
  have w1: "same_tracks w w1" using f by (rule select_folder_first_same_tracks)
  have l: "same_tracks w (snd (select_folder_loop env outs (input_lines env) w1))"
    using w1 select_folder_loop_same_tracks by (rule same_tracks_trans)
  show ?thesis
    using False f w1 l
    by (cases r; cases "select_folder_loop env outs (input_lines env) w1")
       (auto simp: select_folder_def Let_def same_tracks_def split: result.splits)
qed

lemma only_display_refl [simp]: "only_display w w"
  by (simp add: only_display_def)

lemma only_display_trans: "only_display w w1 \<Longrightarrow> only_display w1 w2 \<Longrightarrow> only_display w w2"
  by (simp add: only_display_def)

lemma and_then_only_display:
  assumes "only_display w (snd r)"
    and "\<And>x w1. only_display w w1 \<Longrightarrow> only_display w (snd (f x w1))"
  shows "only_display w (snd (and_then r f))"
  using assms by (cases r) (auto simp: and_then_def split: result.splits)

lemma send_mpv_command_only_display: "only_display w (snd (send_mpv_command env c w))"
  by (simp add: send_mpv_command_def on_error_def only_display_def
           split: chan_io.splits recv_data.splits)

lemma get_mpv_property_only_display: "only_display w (snd (get_mpv_property env prop w))"
proof -
  obtain r w1 where s: "send_mpv_command env (get_property_command prop) w = (r, w1)"
    by (cases "send_mpv_command env (get_property_command prop) w")
  have "only_display w w1"
    using send_mpv_command_only_display [of w env "get_property_command prop"] s by simp
  then show ?thesis
    by (simp add: get_mpv_property_def s split: result.splits pyval.splits)
qed

lemma update_progress_display_only_display:
  "only_display w (snd (update_progress_display str2f p c t w))"
  by (simp add: update_progress_display_def only_display_def Let_def split: sum.splits)

lemma draw_full_interface_only_display: "only_display w (snd (draw_full_interface env w))"
  by (simp add: draw_full_interface_def only_display_def split: result.splits)

lemma main_redraw_only_display: "only_display w (snd (main_redraw env w))"
proof (cases "needs_full_redraw w")
  case False
  then show ?thesis by (simp add: main_redraw_def)
next
  case True
  have "only_display w (snd (and_then (draw_full_interface env w) (\<lambda>_ w1.
          (Returns (), w1\<lparr>needs_full_redraw := False, last_progress_update := 0\<rparr>))))"
    by (rule and_then_only_display)
       (simp_all add: draw_full_interface_only_display [unfolded only_display_def] only_display_def)
  then show ?thesis using True by (simp add: main_redraw_def)
qed

lemma main_poll_only_display: "only_display w (snd (main_poll env w))"
proof (cases "1 \<le> clock env - last_progress_update w")
  case False
  then show ?thesis by (simp add: main_poll_def)
next
  case True
  have "only_display w (snd (
        and_then (get_mpv_property env ''percent-pos'' w) (\<lambda>percent w1.
        and_then (get_mpv_property env ''time-pos'' w1) (\<lambda>pos w2.
        and_then (get_mpv_property env ''duration'' w2) (\<lambda>dur w3.
        and_then (update_progress_display (parse_float env) percent pos dur w3) (\<lambda>_ w4.
          (Returns (), w4\<lparr>last_progress_update := clock env\<rparr>)))))))"
    apply (rule and_then_only_display)
     apply (rule get_mpv_property_only_display)
    apply (rule and_then_only_display)
     apply (erule only_display_trans, rule get_mpv_property_only_display)
    apply (rule and_then_only_display)
     apply (erule only_display_trans, rule get_mpv_property_only_display)
    apply (rule and_then_only_display)
     apply (erule only_display_trans, rule update_progress_display_only_display)
    apply (simp add: only_display_def)
    done
  then show ?thesis using True by (simp add: main_poll_def)
qed

lemma and_then_not_pending:
  assumes "fst r \<noteq> Pending" and "\<And>x w1. fst (f x w1) \<noteq> Pending"
  shows "fst (and_then r f) \<noteq> Pending"
  using assms by (cases r) (auto simp: and_then_def split: result.splits)

lemma send_mpv_command_not_pending: "fst (send_mpv_command env c w) \<noteq> Pending"
  by (simp add: send_mpv_command_def on_error_def split: chan_io.splits recv_data.splits)

lemma get_mpv_property_not_pending: "fst (get_mpv_property env prop w) \<noteq> Pending"
proof -
  obtain r w1 where s: "send_mpv_command env (get_property_command prop) w = (r, w1)"
    by (cases "send_mpv_command env (get_property_command prop) w")
  have "r \<noteq> Pending"
    using send_mpv_command_not_pending [of env "get_property_command prop" w] s by simp
  then show ?thesis
    by (simp add: get_mpv_property_def s split: result.splits pyval.splits)
qed

lemma update_progress_display_not_pending:
  "fst (update_progress_display str2f p c t w) \<noteq> Pending"
  by (simp add: update_progress_display_def Let_def split: sum.splits)

lemma get_song_info_not_pending: "get_song_info env w \<noteq> Pending"
  by (simp add: get_song_info_def split: sum.splits option.splits)

lemma main_redraw_not_pending: "fst (main_redraw env w) \<noteq> Pending"
  using get_song_info_not_pending [of env w]
  by (simp add: main_redraw_def draw_full_interface_def and_then_def split: result.splits)

lemma main_poll_not_pending: "fst (main_poll env w) \<noteq> Pending"
proof (cases "1 \<le> clock env - last_progress_update w")
  case False
  then show ?thesis by (simp add: main_poll_def)
next
  case True
  have "fst (
        and_then (get_mpv_property env ''percent-pos'' w) (\<lambda>percent w1.
        and_then (get_mpv_property env ''time-pos'' w1) (\<lambda>pos w2.
        and_then (get_mpv_property env ''duration'' w2) (\<lambda>dur w3.
        and_then (update_progress_display (parse_float env) percent pos dur w3) (\<lambda>_ w4.
          (Returns (), w4\<lparr>last_progress_update := clock env\<rparr>)))))) \<noteq> Pending"
    by (intro and_then_not_pending get_mpv_property_not_pending
          update_progress_display_not_pending) simp
  then show ?thesis using True by (simp add: main_poll_def)
qed

text \<open>
  A pass of the loop either fails while redrawing or polling, or reaches the test
  for the exited player in a world that differs in the display only.
\<close>

lemma main_loop_body_split:
  assumes "main_loop_body env w = (r, w')"
  shows "(\<exists>e. r = Raises e \<and> only_display w w')
     \<or> (\<exists>w2. only_display w w2 \<and> main_dispatch env w2 = (r, w'))"
proof -
  obtain r1 w1 where r1: "main_redraw env w = (r1, w1)" by (cases "main_redraw env w")
  have d1: "only_display w w1" using main_redraw_only_display [of w env] r1 by simp
  have n1: "r1 \<noteq> Pending" using main_redraw_not_pending [of env w] r1 by simp
  obtain r2 w2 where r2: "main_poll env w1 = (r2, w2)" by (cases "main_poll env w1")
  have d2: "only_display w w2"
    using d1 main_poll_only_display [of w1 env] r2 by (auto intro: only_display_trans)
  have n2: "r2 \<noteq> Pending" using main_poll_not_pending [of env w1] r2 by simp
  show ?thesis
  proof (cases r1)
    case (Raises e)
    then show ?thesis using assms r1 d1 by (auto simp: main_loop_body_def and_then_def)
  next
    case Pending
    then show ?thesis using n1 by simp
  next
    case R1: (Returns u)
    show ?thesis
    proof (cases r2)
      case (Raises e)
      then show ?thesis using assms r1 R1 r2 d2 by (auto simp: main_loop_body_def and_then_def)
    next
      case Pending
      then show ?thesis using n2 by simp
    next
      case (Returns u2)
      then have "main_dispatch env w2 = (r, w')"
        using assms r1 R1 r2 by (simp add: main_loop_body_def and_then_def)
      then show ?thesis using d2 by blast
    qed
  qed
qed

text \<open>A property of every branch of the chain on the key holds of the chain.\<close>

lemma key_action_branches:
  assumes "Q (main_like env w)"
    and "Q (main_dislike env w)"
    and "Q (and_then (circular_advance w) (\<lambda>_ w1. play_song env w1))"
    and "Q (and_then (choose_song env w) (\<lambda>chosen w1.
          if chosen then play_song env w1 else (Returns (), w1\<lparr>needs_full_redraw := True\<rparr>)))"
    and "Q (and_then (select_folder env w) (\<lambda>_ w1.
        and_then (get_songs env w1) (\<lambda>_ w2.
          play_song env (w2\<lparr>current_song_index := 0\<rparr>))))"
    and "Q (cleanup env w)"
    and "\<And>c. Q (and_then (send_mpv_command env c w) (\<lambda>_ w1. (Returns (), w1)))"
    and "Q (Returns (), w)"
  shows "Q (key_action env key w)"
  unfolding key_action_def by (simp only: assms simp_thms split: if_split)

section \<open>The claims\<close>

text \<open>
  C1. For a non-empty track list, the circular advance, as the \<open>next\<close> key and the
  detected exit of the player apply it, takes the index \<open>i\<close> to \<open>(i + 1) mod len\<close>; the
  new index lies in \<open>0 ..< len\<close>, and from the last index it is 0.
\<close>

theorem circular_advance_wraps:
  assumes "songs w \<noteq> []"
  shows "circular_advance w
           = (Returns (),
              w\<lparr>current_song_index := (current_song_index w + 1) mod int (length (songs w))\<rparr>)
    \<and> current_song_index (snd (main_key env ''n'' w))
         = (current_song_index w + 1) mod int (length (songs w))
    \<and> current_song_index (snd (main_key env ''N'' w))
         = (current_song_index w + 1) mod int (length (songs w))
    \<and> current_song_index (snd (main_player_exit env w))
         = (current_song_index w + 1) mod int (length (songs w))
    \<and> (mpv_process w \<noteq> None \<and> \<not> player_alive w \<and> main_loop_body env w = (Returns (), w')
         \<longrightarrow> current_song_index w' = (current_song_index w + 1) mod int (length (songs w))
             \<and> songs w' = songs w)
    \<and> 0 \<le> (current_song_index w + 1) mod int (length (songs w))
    \<and> (current_song_index w + 1) mod int (length (songs w)) < int (length (songs w))
    \<and> (current_song_index w = int (length (songs w)) - 1
         \<longrightarrow> (current_song_index w + 1) mod int (length (songs w)) = 0)"
proof -
  let ?i = "(current_song_index w + 1) mod int (length (songs w))"
  have adv: "\<And>v. songs v \<noteq> [] \<Longrightarrow> circular_advance v
           = (Returns (),
              v\<lparr>current_song_index := (current_song_index v + 1) mod int (length (songs v))\<rparr>)"
    by (simp add: circular_advance_def)
  have ex: "\<And>v. songs v \<noteq> [] \<Longrightarrow> current_song_index (snd (main_player_exit env v))
                 = (current_song_index v + 1) mod int (length (songs v))
              \<and> songs (snd (main_player_exit env v)) = songs v"
    using play_song_same_tracks by (simp add: main_player_exit_def adv and_then_def same_tracks_def)
  have n: "current_song_index (snd (main_key env ''n'' w)) = ?i"
    using assms play_song_same_tracks [of "w\<lparr>current_song_index := ?i\<rparr>" env]
    by (simp add: main_key_def key_action_def adv and_then_cases same_tracks_def
             split: result.splits)
  have N: "current_song_index (snd (main_key env ''N'' w)) = ?i"
    using assms play_song_same_tracks [of "w\<lparr>current_song_index := ?i\<rparr>" env]
    by (simp add: main_key_def key_action_def adv and_then_cases same_tracks_def
             split: result.splits)
  have body: "current_song_index w' = ?i \<and> songs w' = songs w"
    if p: "mpv_process w \<noteq> None" "\<not> player_alive w"
      and b: "main_loop_body env w = (Returns (), w')"
  proof -
    from main_loop_body_split [OF b] obtain w2
      where d: "only_display w w2" and m: "main_dispatch env w2 = (Returns (), w')"
      by auto
    have same: "mpv_process w2 = mpv_process w" "live w2 = live w" "songs w2 = songs w"
      "current_song_index w2 = current_song_index w"
      using d by (simp_all add: only_display_def)
    have "player_alive w2 = player_alive w"
      using same by (simp add: player_alive_def split: option.splits)
    then have "main_player_exit env w2 = (Returns (), w')"
      using m p same by (simp add: main_dispatch_def)
    then show ?thesis using ex [of w2] assms same by simp
  qed
  have pos: "0 < int (length (songs w))" using assms by simp
  show ?thesis
    using adv [OF assms] n N ex [OF assms] body pos by simp
qed

theorem circular_advance_wraps_witness:
  "songs three_tracks \<noteq> []
   \<and> current_song_index three_tracks = 2
   \<and> current_song_index (snd (main_key quiet_env ''n'' three_tracks)) = 0
   \<and> current_song_index (snd (main_player_exit quiet_env three_tracks)) = 0"
proof -
  have s: "songs three_tracks \<noteq> []" by (simp add: three_tracks_def)
  have i: "current_song_index three_tracks = 2" by (simp add: three_tracks_def)
  have l: "int (length (songs three_tracks)) = 3" by (simp add: three_tracks_def)
  show ?thesis
    using s i circular_advance_wraps [OF s, of quiet_env three_tracks] by (simp add: l)
qed

subsection \<open>The control channel\<close>

lemma send_no_socket: "sock w = None \<Longrightarrow> send_mpv_command env c w = (Returns PNone, w)"
  by (simp add: send_mpv_command_def)

lemma send_caught:
  "sock w \<noteq> None \<Longrightarrow>
   channel env c = ConnectRaises e \<or> channel env c = SendallRaises e \<or> channel env c = RecvRaises e \<Longrightarrow>
   caught e \<Longrightarrow> fst (send_mpv_command env c w) = Returns PNone"
  by (auto simp: send_mpv_command_def on_error_def)

lemma send_no_data:
  "sock w \<noteq> None \<Longrightarrow> channel env c = Received NoData \<Longrightarrow>
   fst (send_mpv_command env c w) = Returns PNone"
  by (auto simp: send_mpv_command_def)

lemma send_decoded:
  "sock w \<noteq> None \<Longrightarrow> channel env c = Received (Decoded v) \<Longrightarrow>
   send_mpv_command env c w = (Returns v, emit (Sent c) w)"
  by (auto simp: send_mpv_command_def)

lemma send_raises:
  "fst (send_mpv_command env c w) = Raises e' \<Longrightarrow>
     sock w \<noteq> None \<and> \<not> caught e'
     \<and> (channel env c = ConnectRaises e' \<or> channel env c = SendallRaises e'
          \<or> channel env c = RecvRaises e'
          \<or> channel env c = Received (LoadsRaises e'))"
  by (cases "channel env c"; cases "sock w")
     (auto simp: send_mpv_command_def on_error_def split: recv_data.splits if_splits)

lemma send_undecoded:
  "sock w \<noteq> None \<Longrightarrow> channel env c = Received (LoadsRaises d) \<Longrightarrow> \<not> caught d \<Longrightarrow>
   send_mpv_command env c w = (Raises d, emit (Sent c) w)"
  by (auto simp: send_mpv_command_def on_error_def)

lemma caught_iff:
  "caught e = (e = ConnectionRefusedError \<or> e = FileNotFoundError \<or> e = BrokenPipeError
            \<or> e = SocketTimeout)"
  by (simp add: caught_def)

text \<open>
  C2 (as the code has it). For every command: when the socket file does not exist
  the request returns None at once and nothing is sent; when connecting, sending
  or receiving raises one of the four exceptions of the \<^verbatim>\<open>except\<close> clause
  (ConnectionRefusedError, FileNotFoundError, BrokenPipeError, socket.timeout) it
  returns None; when nothing is received it returns None; when what is received
  decodes, it returns the decoded response. When what is received does not decode,
  the exception that \<^verbatim>\<open>json.loads\<close> raises (UnicodeDecodeError, JSONDecodeError) is
  none of the four and is raised to the caller, after the request was sent.
  Whatever the function raises is none of the four and was raised by one of these
  steps.
\<close>

theorem send_mpv_command_soft_failure:
  "(sock w = None \<longrightarrow> send_mpv_command env c w = (Returns PNone, w))
   \<and> (sock w \<noteq> None
        \<and> (channel env c = ConnectRaises e \<or> channel env c = SendallRaises e
            \<or> channel env c = RecvRaises e)
        \<and> (e = ConnectionRefusedError \<or> e = FileNotFoundError \<or> e = BrokenPipeError
            \<or> e = SocketTimeout)
        \<longrightarrow> fst (send_mpv_command env c w) = Returns PNone)
   \<and> (sock w \<noteq> None \<and> channel env c = Received NoData
        \<longrightarrow> fst (send_mpv_command env c w) = Returns PNone)
   \<and> (sock w \<noteq> None \<and> channel env c = Received (Decoded v)
        \<longrightarrow> send_mpv_command env c w = (Returns v, emit (Sent c) w))
   \<and> (sock w \<noteq> None \<and> channel env c = Received (LoadsRaises d)
        \<and> d \<noteq> ConnectionRefusedError \<and> d \<noteq> FileNotFoundError \<and> d \<noteq> BrokenPipeError
        \<and> d \<noteq> SocketTimeout
        \<longrightarrow> send_mpv_command env c w = (Raises d, emit (Sent c) w))
   \<and> (fst (send_mpv_command env c w) = Raises e'
        \<longrightarrow> sock w \<noteq> None
            \<and> e' \<noteq> ConnectionRefusedError \<and> e' \<noteq> FileNotFoundError \<and> e' \<noteq> BrokenPipeError
            \<and> e' \<noteq> SocketTimeout
            \<and> (channel env c = ConnectRaises e' \<or> channel env c = SendallRaises e'
                 \<or> channel env c = RecvRaises e'
                 \<or> channel env c = Received (LoadsRaises e')))
   \<and> fst (send_mpv_command env c w) \<noteq> Pending"
proof (intro conjI impI)
  show "send_mpv_command env c w = (Returns PNone, w)" if "sock w = None"
    using that by (rule send_no_socket)
  show "fst (send_mpv_command env c w) = Returns PNone"
    if "sock w \<noteq> None
        \<and> (channel env c = ConnectRaises e \<or> channel env c = SendallRaises e
            \<or> channel env c = RecvRaises e)
        \<and> (e = ConnectionRefusedError \<or> e = FileNotFoundError \<or> e = BrokenPipeError
            \<or> e = SocketTimeout)"
    using that send_caught [of w env c e] caught_iff [of e] by blast
  show "fst (send_mpv_command env c w) = Returns PNone"
    if "sock w \<noteq> None \<and> channel env c = Received NoData"
    using that send_no_data by blast
  show "send_mpv_command env c w = (Returns v, emit (Sent c) w)"
    if "sock w \<noteq> None \<and> channel env c = Received (Decoded v)"
    using that send_decoded by blast
  show "send_mpv_command env c w = (Raises d, emit (Sent c) w)"
    if "sock w \<noteq> None \<and> channel env c = Received (LoadsRaises d)
        \<and> d \<noteq> ConnectionRefusedError \<and> d \<noteq> FileNotFoundError \<and> d \<noteq> BrokenPipeError
        \<and> d \<noteq> SocketTimeout"
    using that send_undecoded [of w env c d] caught_iff [of d] by blast
next
  assume r: "fst (send_mpv_command env c w) = Raises e'"
  note s = send_raises [OF r]
  show "sock w \<noteq> None" using s by blast
  show "e' \<noteq> ConnectionRefusedError" "e' \<noteq> FileNotFoundError" "e' \<noteq> BrokenPipeError"
    "e' \<noteq> SocketTimeout"
    using s caught_iff [of e'] by blast+
  show "channel env c = ConnectRaises e' \<or> channel env c = SendallRaises e'
                 \<or> channel env c = RecvRaises e'
                 \<or> channel env c = Received (LoadsRaises e')"
    using s by blast
next
  show "fst (send_mpv_command env c w) \<noteq> Pending"
    by (rule send_mpv_command_not_pending)
qed

text \<open>
  The session of three tracks: a refused connection gives None, a reply that
  decodes is returned, and a reply in no Unicode encoding raises out of the
  request.
\<close>

theorem send_mpv_command_soft_failure_witness:
  "sock three_tracks \<noteq> None
   \<and> channel refusing_env pause_command = ConnectRaises ConnectionRefusedError
   \<and> fst (send_mpv_command refusing_env pause_command three_tracks) = Returns PNone
   \<and> channel answering_env pause_command = Received (Decoded success_response)
   \<and> send_mpv_command answering_env pause_command three_tracks
       = (Returns success_response, emit (Sent pause_command) three_tracks)
   \<and> channel not_unicode_env pause_command = Received (LoadsRaises UnicodeDecodeError)
   \<and> send_mpv_command not_unicode_env pause_command three_tracks
       = (Raises UnicodeDecodeError, emit (Sent pause_command) three_tracks)"
proof -
  have b: "sock three_tracks \<noteq> None" by (simp add: three_tracks_def)
  have c: "channel refusing_env pause_command = ConnectRaises ConnectionRefusedError"
    by (simp add: refusing_env_def quiet_env_def)
  have d: "channel answering_env pause_command = Received (Decoded success_response)"
    by (simp add: answering_env_def quiet_env_def)
  have u: "channel not_unicode_env pause_command = Received (LoadsRaises UnicodeDecodeError)"
    by (simp add: not_unicode_env_def quiet_env_def)
  have r: "fst (send_mpv_command refusing_env pause_command three_tracks) = Returns PNone"
    using b c
      send_mpv_command_soft_failure
        [of three_tracks refusing_env pause_command ConnectionRefusedError PNone ValueError
            ValueError, THEN conjunct2, THEN conjunct1]
    by blast
  have a: "send_mpv_command answering_env pause_command three_tracks
       = (Returns success_response, emit (Sent pause_command) three_tracks)"
    using b d
      send_mpv_command_soft_failure
        [of three_tracks answering_env pause_command ConnectionRefusedError success_response
            ValueError ValueError, THEN conjunct2, THEN conjunct2, THEN conjunct2, THEN conjunct1]
    by blast
  have n: "UnicodeDecodeError \<noteq> ConnectionRefusedError \<and> UnicodeDecodeError \<noteq> FileNotFoundError
           \<and> UnicodeDecodeError \<noteq> BrokenPipeError \<and> UnicodeDecodeError \<noteq> SocketTimeout"
    by simp
  have x: "send_mpv_command not_unicode_env pause_command three_tracks
       = (Raises UnicodeDecodeError, emit (Sent pause_command) three_tracks)"
    using b u n
      send_mpv_command_soft_failure
        [of three_tracks not_unicode_env pause_command ConnectionRefusedError PNone
            UnicodeDecodeError ValueError,
         THEN conjunct2, THEN conjunct2, THEN conjunct2, THEN conjunct2, THEN conjunct1]
    by blast
  show ?thesis using b c d u r a x by blast
qed

text \<open>
  The claim as stated fails: the player answers with bytes that are not one JSON
  document (two lines in one read, say), or that are in no Unicode encoding;
  \<^verbatim>\<open>json.loads\<close> raises JSONDecodeError, or UnicodeDecodeError, and the \<^verbatim>\<open>except\<close>
  clause names neither.
\<close>

theorem send_mpv_command_raises:
  "fst (send_mpv_command garbled_env pause_command three_tracks) = Raises JSONDecodeError
   \<and> fst (send_mpv_command not_unicode_env pause_command three_tracks)
       = Raises UnicodeDecodeError"
  by (simp add: send_mpv_command_def garbled_env_def not_unicode_env_def quiet_env_def
        three_tracks_def on_error_def caught_def)

subsection \<open>The process supervisor\<close>


lemma stop_player_live:
  "live (stop_player env w)
     = (case mpv_process w of None \<Rightarrow> live w | Some p \<Rightarrow> removeAll p (live w))"
  by (simp add: stop_player_def Let_def split: option.splits)



lemma play_song_spawned:
  assumes "py_index (songs w) (current_song_index w) = Inr name" and "popen_error env = None"
  shows "play_song env w =
     (Returns (),
      (emit (Sleep 1)
         ((emit (Popen (mpv_command env (song_path w name))) (remove_socket (stop_player env w)))
            \<lparr>mpv_process := Some (next_pid w),
             live := (if exits_in_settle env
                      then removeAll (next_pid w) (live (stop_player env w) @ [next_pid w])
                      else live (stop_player env w) @ [next_pid w]),
             next_pid := Suc (next_pid w)\<rparr>))
        \<lparr>sock := (if binds_endpoint env then Some (next_pid w) else None),
         needs_full_redraw := True\<rparr>)"
  using assms by (simp add: play_song_def Let_def song_path_def emit_def)

lemma play_song_failed:
  assumes "py_index (songs w) (current_song_index w) = Inr name" and "popen_error env = Some e"
  shows "play_song env w = (Raises e, remove_socket (stop_player env w))"
  using assms by (simp add: play_song_def Let_def)




subsection \<open>At most one player\<close>

lemma at_most_one_cong:
  assumes "mpv_process w' = mpv_process w" and "live w' = live w"
  shows "at_most_one_player w' = at_most_one_player w"
  using assms by (simp add: at_most_one_player_def split: option.splits)

lemma at_most_one_fields [simp]:
  "at_most_one_player (emit e w) = at_most_one_player w"
  "at_most_one_player (print s w) = at_most_one_player w"
  "at_most_one_player (show_feedback m c d w) = at_most_one_player w"
  "at_most_one_player (hide_cursor w) = at_most_one_player w"
  "at_most_one_player (show_cursor w) = at_most_one_player w"
  "at_most_one_player (remove_socket w) = at_most_one_player w"
  "at_most_one_player (w\<lparr>current_song_index := i\<rparr>) = at_most_one_player w"
  "at_most_one_player (w\<lparr>needs_full_redraw := f\<rparr>) = at_most_one_player w"
  "at_most_one_player (w\<lparr>likes_file := l\<rparr>) = at_most_one_player w"
  "at_most_one_player (w\<lparr>dislikes_file := l\<rparr>) = at_most_one_player w"
  "at_most_one_player (w\<lparr>songs := ss\<rparr>) = at_most_one_player w"
  "at_most_one_player (w\<lparr>current_folder := folder\<rparr>) = at_most_one_player w"
  "at_most_one_player (w\<lparr>last_progress_update := t\<rparr>) = at_most_one_player w"
  "at_most_one_player (w\<lparr>old_termios_settings := b\<rparr>) = at_most_one_player w"
  by (rule at_most_one_cong; simp)+

lemma and_then_keeps:
  assumes "P (snd r)" and "\<And>x w1. P w1 \<Longrightarrow> P (snd (f x w1))"
  shows "P (snd (and_then r f))"
  using assms by (cases r) (auto simp: and_then_def split: result.splits)

lemma only_display_one_player:
  assumes "only_display w w'" and "at_most_one_player w"
  shows "at_most_one_player w'"
proof -
  have "mpv_process w' = mpv_process w" "live w' = live w"
    using assms(1) by (simp_all add: only_display_def)
  then have "at_most_one_player w' = at_most_one_player w" by (rule at_most_one_cong)
  then show ?thesis using assms(2) by simp
qed

lemma stop_player_no_player:
  assumes "at_most_one_player w"
  shows "live (stop_player env w) = []"
  using assms by (auto simp: at_most_one_player_def stop_player_live split: option.splits)

lemma stop_player_one_player:
  assumes "at_most_one_player w"
  shows "at_most_one_player (stop_player env w)"
  using stop_player_no_player [OF assms, of env]
  by (simp add: at_most_one_player_def split: option.splits)

lemma cleanup_one_player:
  assumes "at_most_one_player w"
  shows "at_most_one_player (snd (cleanup env w))"
  using stop_player_one_player [OF assms, of env]
  by (simp add: cleanup_def Let_def)

lemma run_fzf_one_player:
  assumes "at_most_one_player w"
  shows "at_most_one_player (snd (run_fzf env out w))"
proof (cases out)
  case FzfMissing
  have "at_most_one_player (print ''Error: 'fzf' command not found. Please install fzf.'' w)"
    using assms by simp
  then show ?thesis using FzfMissing by (simp add: run_fzf_def cleanup_one_player)
next
  case (FzfDone rc s)
  then show ?thesis using assms by (simp add: run_fzf_def)
qed

lemma select_folder_loop_one_player:
  "at_most_one_player w \<Longrightarrow> at_most_one_player (snd (select_folder_loop env outs answers w))"
proof (induction outs arbitrary: answers w)
  case Nil
  then show ?case by simp
next
  case (Cons out outs)
  have p: "at_most_one_player (print ''No folder selected.'' w)"
    using Cons.prems by simp
  obtain r w1 where r: "run_fzf env out (print ''No folder selected.'' w) = (r, w1)"
    by (cases "run_fzf env out (print ''No folder selected.'' w)")
  have w1: "at_most_one_player w1" using run_fzf_one_player [OF p, of env out] r by simp
  show ?case
  proof (cases r)
    case (Returns selected)
    show ?thesis
    proof (cases answers)
      case Nil
      then show ?thesis using r Returns w1 by simp
    next
      case (Cons a answers')
      let ?w2 = "emit (Stdout quit_prompt) w1"
      have w2: "at_most_one_player ?w2" using w1 by simp
      have "at_most_one_player (snd (cleanup env ?w2 :: string result \<times> world))"
        using w2 by (rule cleanup_one_player)
      moreover have "at_most_one_player (snd (select_folder_loop env outs answers' ?w2))"
        using w2 by (rule Cons.IH)
      ultimately show ?thesis using r Returns Cons w1 by simp
    qed
  next
    case (Raises e)
    then show ?thesis using r w1 by simp
  next
    case Pending
    then show ?thesis using r w1 by simp
  qed
qed

lemma run_fzf_one_player_eq:
  "run_fzf env out w = (r, w1) \<Longrightarrow> at_most_one_player w \<Longrightarrow> at_most_one_player w1"
  using run_fzf_one_player [of w env out] by simp

lemma select_folder_first_one_player:
  assumes "select_folder_first env folders w = (r, outs, w1)" and "at_most_one_player w"
  shows "at_most_one_player w1"
proof -
  have p: "at_most_one_player (print default_missing w)"
    using assms(2) by simp
  show ?thesis
    using assms p
    by (auto simp: select_folder_first_def split: if_splits list.splits prod.splits
             dest: run_fzf_one_player_eq)
qed

lemma select_folder_one_player:
  assumes "at_most_one_player w"
  shows "at_most_one_player (snd (select_folder env w))"
proof (cases "visible_folders env = []")
  case True
  then show ?thesis using assms by (simp add: select_folder_def)
next
  case False
  obtain r outs w1 where f: "select_folder_first env (visible_folders env) w = (r, outs, w1)"
    by (cases "select_folder_first env (visible_folders env) w") auto
  have w1: "at_most_one_player w1" using f assms by (rule select_folder_first_one_player)
  have l: "at_most_one_player (snd (select_folder_loop env outs (input_lines env) w1))"
    using w1 by (rule select_folder_loop_one_player)
  show ?thesis
    using False f w1 l
    by (cases r; cases "select_folder_loop env outs (input_lines env) w1")
       (auto simp: select_folder_def Let_def split: result.splits)
qed

lemma get_songs_one_player:
  "at_most_one_player w \<Longrightarrow> at_most_one_player (snd (get_songs env w))"
  by (simp add: get_songs_def Let_def)

lemma choose_song_one_player:
  assumes "at_most_one_player w"
  shows "at_most_one_player (snd (choose_song env w))"
proof (cases "picker_runs env")
  case Nil
  then show ?thesis using assms by (simp add: choose_song_def)
next
  case (Cons out outs)
  obtain r w1 where r: "run_fzf env out w = (r, w1)" by (cases "run_fzf env out w")
  have w1: "at_most_one_player w1" using run_fzf_one_player [OF assms, of env out] r by simp
  then have "at_most_one_player (w1\<lparr>current_song_index := i\<rparr>)" for i
    by simp
  then show ?thesis
    using Cons r w1 by (cases r) (simp_all add: choose_song_def split: option.splits)
qed

lemma circular_advance_one_player:
  "at_most_one_player w \<Longrightarrow> at_most_one_player (snd (circular_advance w))"
  by (simp add: circular_advance_def)

lemma play_song_at_most_one:
  assumes "at_most_one_player w"
  shows "at_most_one_player (snd (play_song env w))"
proof -
  have l: "live (stop_player env w) = []" using assms by (rule stop_player_no_player)
  have s: "at_most_one_player (remove_socket (stop_player env w))"
    using l by (simp add: at_most_one_player_def split: option.splits)
  show ?thesis
  proof (cases "py_index (songs w) (current_song_index w)")
    case (Inl e)
    then show ?thesis using s by (simp add: play_song_def Let_def)
  next
    case (Inr name)
    show ?thesis
    proof (cases "popen_error env")
      case None
      show ?thesis
        by (simp add: play_song_spawned [OF Inr None] l at_most_one_player_def split: option.splits)
    next
      case (Some e)
      show ?thesis using s by (simp add: play_song_failed [OF Inr Some])
    qed
  qed
qed

lemma key_action_one_player:
  assumes "at_most_one_player w"
  shows "at_most_one_player (snd (key_action env key w))"
proof (rule key_action_branches)
  show "at_most_one_player (snd (main_like env w))"
    using assms by (simp add: main_like_def split: append_io.splits sum.splits)
  show "at_most_one_player (snd (main_dislike env w))"
    using assms by (simp add: main_dislike_def split: append_io.splits sum.splits)
  show "at_most_one_player (snd (and_then (circular_advance w) (\<lambda>_ w1. play_song env w1)))"
    by (rule and_then_keeps) (simp_all add: assms circular_advance_one_player play_song_at_most_one)
  show "at_most_one_player (snd (and_then (choose_song env w) (\<lambda>chosen w1.
          if chosen then play_song env w1 else (Returns (), w1\<lparr>needs_full_redraw := True\<rparr>))))"
  proof (rule and_then_keeps)
    show "at_most_one_player (snd (choose_song env w))"
      using assms by (rule choose_song_one_player)
    show "at_most_one_player (snd (if x then play_song env w1
            else (Returns (), w1\<lparr>needs_full_redraw := True\<rparr>)))"
      if "at_most_one_player w1" for x w1
      using that play_song_at_most_one [OF that, of env] by simp
  qed
  show "at_most_one_player (snd (and_then (select_folder env w) (\<lambda>_ w1.
        and_then (get_songs env w1) (\<lambda>_ w2.
          play_song env (w2\<lparr>current_song_index := 0\<rparr>)))))"
  proof (rule and_then_keeps)
    show "at_most_one_player (snd (select_folder env w))"
      using assms by (rule select_folder_one_player)
    show "at_most_one_player (snd (and_then (get_songs env w1) (\<lambda>_ w2.
          play_song env (w2\<lparr>current_song_index := 0\<rparr>))))"
      if "at_most_one_player w1" for x :: unit and w1
    proof (rule and_then_keeps)
      show "at_most_one_player (snd (get_songs env w1))"
        using that by (rule get_songs_one_player)
      show "at_most_one_player (snd (play_song env (w2\<lparr>current_song_index := 0\<rparr>)))"
        if "at_most_one_player w2" for y :: unit and w2
      proof -
        have "at_most_one_player (w2\<lparr>current_song_index := 0\<rparr>)"
          using that by simp
        then show ?thesis by (rule play_song_at_most_one)
      qed
    qed
  qed
  show "at_most_one_player (snd (cleanup env w :: unit result \<times> world))"
    using assms by (rule cleanup_one_player)
  show "at_most_one_player (snd (and_then (send_mpv_command env c w) (\<lambda>_ w1. (Returns (), w1))))"
    for c
  proof (rule and_then_keeps)
    show "at_most_one_player (snd (send_mpv_command env c w))"
      using send_mpv_command_only_display assms by (rule only_display_one_player)
  qed simp
  show "at_most_one_player (snd (Returns (), w))" using assms by simp
qed

lemma main_key_one_player:
  assumes "at_most_one_player w"
  shows "at_most_one_player (snd (main_key env key w))"
  unfolding main_key_def
proof (rule and_then_keeps)
  show "at_most_one_player (snd (key_action env key w))"
    using assms by (rule key_action_one_player)
  show "at_most_one_player
          (snd (Returns (), if List.member quiet_keys key then w1
                            else w1\<lparr>needs_full_redraw := True\<rparr>))"
    if "at_most_one_player w1" for x :: unit and w1
    using that by simp
qed

lemma main_dispatch_one_player:
  assumes "at_most_one_player w"
  shows "at_most_one_player (snd (main_dispatch env w))"
proof (cases "mpv_process w \<noteq> None \<and> \<not> player_alive w")
  case True
  have "at_most_one_player (snd (and_then (circular_advance w) (\<lambda>_ w1. play_song env w1)))"
    by (rule and_then_keeps) (simp_all add: assms circular_advance_one_player play_song_at_most_one)
  then show ?thesis using True by (simp add: main_dispatch_def main_player_exit_def)
next
  case False
  then have d: "main_dispatch env w =
        and_then (if falsy (get_key env) then (Returns (), w)
                  else main_key env (the (get_key env)) w) (\<lambda>_ w1.
          (Returns (), emit (Sleep (1 / 10)) w1))"
    by (simp only: main_dispatch_def if_False)
  show ?thesis
    unfolding d
  proof (rule and_then_keeps)
    show "at_most_one_player (snd (if falsy (get_key env) then (Returns (), w)
                  else main_key env (the (get_key env)) w))"
      using assms main_key_one_player [OF assms, of env] by simp
    show "at_most_one_player (snd (Returns (), emit (Sleep (1 / 10)) w1))"
      if "at_most_one_player w1" for x :: unit and w1
      using that by simp
  qed
qed

lemma main_loop_body_one_player:
  assumes "at_most_one_player w"
  shows "at_most_one_player (snd (main_loop_body env w))"
proof -
  obtain r w' where b: "main_loop_body env w = (r, w')" by (cases "main_loop_body env w")
  from main_loop_body_split [OF b]
  consider (display) "only_display w w'"
    | (dispatch) w2 where "only_display w w2" "main_dispatch env w2 = (r, w')"
    by blast
  then have "at_most_one_player w'"
  proof cases
    case display
    then show ?thesis using assms by (rule only_display_one_player)
  next
    case dispatch
    have "at_most_one_player w2" using dispatch(1) assms by (rule only_display_one_player)
    then show ?thesis using main_dispatch_one_player [of w2 env] dispatch(2) by simp
  qed
  then show ?thesis using b by simp
qed

lemma main_iteration_one_player:
  assumes "at_most_one_player w"
  shows "at_most_one_player (snd (main_iteration env w))"
proof -
  obtain b w1 where b: "main_loop_body env w = (b, w1)" by (cases "main_loop_body env w")
  have w1: "at_most_one_player w1" using main_loop_body_one_player [OF assms, of env] b by simp
  have "at_most_one_player (snd (cleanup env w1 :: unit result \<times> world))"
    using w1 by (rule cleanup_one_player)
  then show ?thesis using b w1 by (cases b) (simp_all add: main_iteration_def)
qed

lemma player_exits_one_player:
  "at_most_one_player w \<Longrightarrow> at_most_one_player (player_exits w)"
  by (auto simp: player_exits_def at_most_one_player_def split: option.splits)

lemma main_loop_one_player:
  "at_most_one_player w \<Longrightarrow> at_most_one_player (snd (main_loop envs w))"
proof (induction envs arbitrary: w)
  case Nil
  then show ?case by simp
next
  case (Cons env envs)
  let ?w0 = "if player_died env then player_exits w else w"
  have w0: "at_most_one_player ?w0" using Cons.prems by (simp add: player_exits_one_player)
  obtain i w1 where i: "main_iteration env ?w0 = (i, w1)" by (cases "main_iteration env ?w0")
  have w1: "at_most_one_player w1" using main_iteration_one_player [OF w0, of env] i by simp
  show ?case using i w1 Cons.IH [OF w1] by (cases i) simp_all
qed

lemma main_startup_one_player:
  assumes "at_most_one_player w"
  shows "at_most_one_player (snd (main_startup env w))"
proof (cases "stdin_isatty env")
  case False
  then show ?thesis using assms by (simp add: main_startup_def)
next
  case True
  let ?w1 = "emit Signal_handlers
               (emit Setcbreak ((emit Tcgetattr w)\<lparr>old_termios_settings := True\<rparr>))"
  have w1: "at_most_one_player ?w1" using assms by simp
  have "at_most_one_player (snd (
          and_then (select_folder env ?w1) (\<lambda>_ w2.
            and_then (get_songs env w2) (\<lambda>_ w3.
              (case randint env 0 (int (length (songs w3)) - 1) of
                 Inl e \<Rightarrow> (Raises e, w3)
               | Inr i \<Rightarrow>
                   and_then (play_song env (w3\<lparr>current_song_index := i\<rparr>)) (\<lambda>_ w4.
                     (Returns (), (hide_cursor w4)\<lparr>last_progress_update := 0\<rparr>)))))))"
  proof (rule and_then_keeps)
    show "at_most_one_player (snd (select_folder env ?w1))"
      using w1 by (rule select_folder_one_player)
    show "at_most_one_player (snd (
            and_then (get_songs env w2) (\<lambda>_ w3.
              (case randint env 0 (int (length (songs w3)) - 1) of
                 Inl e \<Rightarrow> (Raises e, w3)
               | Inr i \<Rightarrow>
                   and_then (play_song env (w3\<lparr>current_song_index := i\<rparr>)) (\<lambda>_ w4.
                     (Returns (), (hide_cursor w4)\<lparr>last_progress_update := 0\<rparr>))))))"
      if "at_most_one_player w2" for x :: unit and w2
    proof (rule and_then_keeps)
      show "at_most_one_player (snd (get_songs env w2))"
        using that by (rule get_songs_one_player)
      show "at_most_one_player (snd (
              case randint env 0 (int (length (songs w3)) - 1) of
                 Inl e \<Rightarrow> (Raises e, w3)
               | Inr i \<Rightarrow>
                   and_then (play_song env (w3\<lparr>current_song_index := i\<rparr>)) (\<lambda>_ w4.
                     (Returns (), (hide_cursor w4)\<lparr>last_progress_update := 0\<rparr>))))"
        if w3: "at_most_one_player w3" for y :: unit and w3
      proof (cases "randint env 0 (int (length (songs w3)) - 1)")
        case (Inl e)
        then show ?thesis using w3 by simp
      next
        case (Inr i)
        have "at_most_one_player (snd (
                and_then (play_song env (w3\<lparr>current_song_index := i\<rparr>)) (\<lambda>_ w4.
                     (Returns (), (hide_cursor w4)\<lparr>last_progress_update := 0\<rparr>))))"
        proof (rule and_then_keeps)
          have "at_most_one_player (w3\<lparr>current_song_index := i\<rparr>)"
            using w3 by simp
          then show "at_most_one_player (snd (play_song env (w3\<lparr>current_song_index := i\<rparr>)))"
            by (rule play_song_at_most_one)
          show "at_most_one_player (snd (Returns (), (hide_cursor w4)\<lparr>last_progress_update := 0\<rparr>))"
            if "at_most_one_player w4" for z :: unit and w4
            using that by simp
        qed
        then show ?thesis using Inr by simp
      qed
    qed
  qed
  then show ?thesis using True by (simp add: main_startup_def Let_def)
qed

lemma play_song_returns:
  assumes "play_song env w = (Returns u, w1)"
  shows "\<exists>name. py_index (songs w) (current_song_index w) = Inr name \<and> popen_error env = None"
  using assms by (auto simp: play_song_def Let_def split: sum.splits option.splits)

lemma play_song_one_player:
  assumes "at_most_one_player w" and "play_song env w = (Returns (), w1)"
  shows "mpv_process w1 = Some (next_pid w)
         \<and> live w1 = (if exits_in_settle env then [] else [next_pid w])
         \<and> sock w1 = (if binds_endpoint env then Some (next_pid w) else None)
         \<and> next_pid w1 = Suc (next_pid w)"
proof -
  obtain name where i: "py_index (songs w) (current_song_index w) = Inr name"
    and p: "popen_error env = None"
    using play_song_returns [OF assms(2)] by blast
  have l: "live (stop_player env w) = []" using assms(1) by (rule stop_player_no_player)
  show ?thesis
    using assms(2) by (auto simp: play_song_spawned [OF i p] l)
qed

lemma player_alive_after:
  assumes "mpv_process w1 = Some p" and "live w1 = (if gone then [] else [p])"
  shows "player_alive w1 = (\<not> gone)"
  using assms by (simp add: player_alive_def)

lemma main_one_player:
  assumes "at_most_one_player w"
  shows "at_most_one_player (snd (main env0 envs w))"
  unfolding main_def
  by (rule and_then_keeps) (simp_all add: assms main_startup_one_player main_loop_one_player)

lemma initial_one_player: "initial_globals w \<Longrightarrow> at_most_one_player w"
  by (simp add: initial_globals_def at_most_one_player_def)

text \<open>
  C4 (as the code has it). After every start at most one spawned player runs. A
  start that returns leaves the handle on the player just spawned, the only one
  that can be running: it runs unless it has exited within the settle interval.
  Two starts in succession do the same: the handle is on the second player, a new
  one; exactly one player runs when that one is still running at the end of its
  settle interval, and none when it has exited; the socket file is that
  player's own when the player has created it within the interval and is absent
  otherwise. So the endpoint is valid exactly when the second player has created
  it in time and is still running. Startup and every pass of the main loop keep
  the invariant, so it holds throughout a session that begins with no player.
\<close>

theorem play_song_twice:
  assumes "at_most_one_player w"
  shows "at_most_one_player (snd (play_song env w))
    \<and> (play_song env w = (Returns (), w1) \<longrightarrow>
          mpv_process w1 = Some (next_pid w)
          \<and> live w1 = (if exits_in_settle env then [] else [next_pid w])
          \<and> player_alive w1 = (\<not> exits_in_settle env))
    \<and> (play_song env w = (Returns (), w1) \<and> play_song env' w1 = (Returns (), w2) \<longrightarrow>
          mpv_process w2 = Some (next_pid w1) \<and> next_pid w1 \<noteq> next_pid w
          \<and> live w2 = (if exits_in_settle env' then [] else [next_pid w1])
          \<and> length (live w2) \<le> 1
          \<and> (length (live w2) = 1) = (\<not> exits_in_settle env')
          \<and> player_alive w2 = (\<not> exits_in_settle env')
          \<and> sock w2 = (if binds_endpoint env' then Some (next_pid w1) else None)
          \<and> endpoint_valid w2 = (binds_endpoint env' \<and> \<not> exits_in_settle env'))
    \<and> at_most_one_player (snd (main_startup env w))
    \<and> at_most_one_player (snd (main_iteration env w))
    \<and> at_most_one_player (snd (main_loop envs w))
    \<and> at_most_one_player (snd (main env envs w))"
proof (intro conjI impI)
  show "at_most_one_player (snd (play_song env w))"
    using assms by (rule play_song_at_most_one)
  show "at_most_one_player (snd (main_startup env w))"
    using assms by (rule main_startup_one_player)
  show "at_most_one_player (snd (main_iteration env w))"
    using assms by (rule main_iteration_one_player)
  show "at_most_one_player (snd (main_loop envs w))"
    using assms by (rule main_loop_one_player)
  show "at_most_one_player (snd (main env envs w))"
    using assms by (rule main_one_player)
next
  assume a: "play_song env w = (Returns (), w1)"
  note first = play_song_one_player [OF assms a]
  show "mpv_process w1 = Some (next_pid w)"
    "live w1 = (if exits_in_settle env then [] else [next_pid w])"
    using first by simp_all
  show "player_alive w1 = (\<not> exits_in_settle env)"
    using first by (intro player_alive_after) simp_all
next
  assume ab: "play_song env w = (Returns (), w1) \<and> play_song env' w1 = (Returns (), w2)"
  then have a: "play_song env w = (Returns (), w1)" and b: "play_song env' w1 = (Returns (), w2)"
    by simp_all
  have one: "at_most_one_player w1"
    using play_song_at_most_one [OF assms, of env] a by simp
  note first = play_song_one_player [OF assms a]
  note second = play_song_one_player [OF one b]
  have alive: "player_alive w2 = (\<not> exits_in_settle env')"
    using second by (intro player_alive_after) simp_all
  show "mpv_process w2 = Some (next_pid w1)"
    "live w2 = (if exits_in_settle env' then [] else [next_pid w1])"
    "sock w2 = (if binds_endpoint env' then Some (next_pid w1) else None)"
    using second by simp_all
  show "length (live w2) \<le> 1" "(length (live w2) = 1) = (\<not> exits_in_settle env')"
    using second by simp_all
  show "player_alive w2 = (\<not> exits_in_settle env')" by (rule alive)
  show "next_pid w1 \<noteq> next_pid w" using first by simp
  show "endpoint_valid w2 = (binds_endpoint env' \<and> \<not> exits_in_settle env')"
    using second alive by (simp add: endpoint_valid_def)
qed

text \<open>
  Two starts in the session of three tracks, with a player that binds its socket
  and keeps running: player 2 alone runs, and the endpoint is valid.
\<close>

theorem play_song_twice_witness:
  "at_most_one_player three_tracks
   \<and> fst (play_song quiet_env three_tracks) = Returns ()
   \<and> fst (play_song quiet_env (snd (play_song quiet_env three_tracks))) = Returns ()
   \<and> binds_endpoint quiet_env \<and> \<not> exits_in_settle quiet_env
   \<and> live (snd (play_song quiet_env (snd (play_song quiet_env three_tracks)))) = [2]
   \<and> endpoint_valid (snd (play_song quiet_env (snd (play_song quiet_env three_tracks))))"
proof -
  define w1 where "w1 = snd (play_song quiet_env three_tracks)"
  define w2 where "w2 = snd (play_song quiet_env w1)"
  have inv: "at_most_one_player three_tracks"
    by (simp add: at_most_one_player_def three_tracks_def)
  have i: "py_index (songs three_tracks) (current_song_index three_tracks) = Inr ''c.mp3''"
    by (simp add: three_tracks_def py_index_def)
  have p: "popen_error quiet_env = None" and bd: "binds_endpoint quiet_env"
    and ex: "\<not> exits_in_settle quiet_env"
    by (simp_all add: quiet_env_def)
  have r1: "fst (play_song quiet_env three_tracks) = Returns ()"
    by (simp add: play_song_spawned [OF i p])
  then have a: "play_song quiet_env three_tracks = (Returns (), w1)"
    by (simp add: w1_def prod_eq_iff)
  have t: "songs w1 = songs three_tracks" "current_song_index w1 = current_song_index three_tracks"
    using play_song_same_tracks [of three_tracks quiet_env]
    by (simp_all add: w1_def same_tracks_def)
  have i1: "py_index (songs w1) (current_song_index w1) = Inr ''c.mp3''"
    using i t by simp
  have r2: "fst (play_song quiet_env w1) = Returns ()"
    by (simp add: play_song_spawned [OF i1 p])
  then have b: "play_song quiet_env w1 = (Returns (), w2)"
    by (simp add: w2_def prod_eq_iff)
  have n: "next_pid w1 = 2"
    using play_song_one_player [OF inv a] by (simp add: three_tracks_def)
  from play_song_twice [OF inv, of quiet_env w1 quiet_env w2 "[]"] a b
  have "live w2 = (if exits_in_settle quiet_env then [] else [next_pid w1])"
    and "endpoint_valid w2 = (binds_endpoint quiet_env \<and> \<not> exits_in_settle quiet_env)"
    by blast+
  then have "live w2 = [next_pid w1]" and "endpoint_valid w2" using bd ex by simp_all
  then show ?thesis using inv r1 r2 bd ex n by (simp add: w1_def [symmetric] w2_def [symmetric])
qed

text \<open>
  The claim as stated fails: the player is spawned and nothing checks what it has
  done when the second is over. With a player that has not created its socket by
  then, two starts leave no endpoint; with one that exits at once (a file it
  cannot play), they leave no player running.
\<close>

theorem play_song_twice_no_endpoint:
  "fst (play_song slow_player_env three_tracks) = Returns ()
   \<and> fst (play_song slow_player_env (snd (play_song slow_player_env three_tracks))) = Returns ()
   \<and> sock (snd (play_song slow_player_env (snd (play_song slow_player_env three_tracks)))) = None
   \<and> \<not> endpoint_valid
         (snd (play_song slow_player_env (snd (play_song slow_player_env three_tracks))))
   \<and> fst (play_song short_lived_env three_tracks) = Returns ()
   \<and> fst (play_song short_lived_env (snd (play_song short_lived_env three_tracks))) = Returns ()
   \<and> live (snd (play_song short_lived_env (snd (play_song short_lived_env three_tracks)))) = []"
  by code_simp

subsection \<open>The index stays inside the track list\<close>

lemma same_tracks_in_range: "same_tracks w w' \<Longrightarrow> index_in_range w \<Longrightarrow> index_in_range w'"
  by (simp add: same_tracks_def index_in_range_def)

lemma and_then_no_raise:
  assumes "and_then r f = (y, w')" and "\<not> is_raise y"
  shows "(fst r = Pending \<and> y = Pending \<and> w' = snd r)
         \<or> (\<exists>x. fst r = Returns x \<and> f x (snd r) = (y, w'))"
  using assms by (cases r; cases "fst r") (auto simp: and_then_def)

lemma index_of_less: "index_of xs x = Some i \<Longrightarrow> i < length xs"
  by (induction xs arbitrary: i) (auto split: if_splits)

lemma circular_advance_in_range:
  assumes "songs w \<noteq> []"
  shows "index_in_range (snd (circular_advance w))"
proof -
  have "0 < int (length (songs w))" using assms by simp
  then show ?thesis using assms by (simp add: circular_advance_def index_in_range_def)
qed

lemma circular_advance_outcome: "fst (circular_advance w) \<noteq> Pending"
  by (simp add: circular_advance_def)

lemma play_song_in_range: "index_in_range w \<Longrightarrow> index_in_range (snd (play_song env w))"
  using play_song_same_tracks by (rule same_tracks_in_range)

lemma advance_and_play_in_range:
  assumes "index_in_range w"
  shows "index_in_range (snd (and_then (circular_advance w) (\<lambda>_ w1. play_song env w1)))"
proof -
  have s: "songs w \<noteq> []" using assms by (simp add: index_in_range_def)
  have "index_in_range (snd (circular_advance w))" using s by (rule circular_advance_in_range)
  then show ?thesis
    using s play_song_in_range by (simp add: circular_advance_def and_then_def)
qed

lemma choose_song_in_range:
  assumes "index_in_range w"
  shows "index_in_range (snd (choose_song env w))"
proof (cases "picker_runs env")
  case Nil
  then show ?thesis using assms by (simp add: choose_song_def)
next
  case (Cons out outs)
  obtain r w1 where r: "run_fzf env out w = (r, w1)" by (cases "run_fzf env out w")
  have t: "same_tracks w w1" using r by (rule run_fzf_same_tracks_eq)
  then have w1: "index_in_range w1" using assms by (rule same_tracks_in_range)
  show ?thesis
  proof (cases r)
    case (Returns selected)
    show ?thesis
    proof (cases "index_of (songs w1) (the selected)")
      case None
      then show ?thesis using Cons r Returns w1 by (simp add: choose_song_def)
    next
      case (Some i)
      have "i < length (songs w1)" using Some by (rule index_of_less)
      then have "index_in_range (w1\<lparr>current_song_index := int i\<rparr>)"
        using w1 by (simp add: index_in_range_def)
      then show ?thesis using Cons r Returns w1 Some by (simp add: choose_song_def)
    qed
  next
    case (Raises e)
    then show ?thesis using Cons r w1 by (simp add: choose_song_def)
  next
    case Pending
    then show ?thesis using Cons r w1 by (simp add: choose_song_def)
  qed
qed

lemma get_songs_outcome:
  "get_songs env w = (r, w') \<Longrightarrow>
     (r = Raises (SystemExit 1) \<and> songs w' = [])
     \<or> (r = Returns () \<and> songs w' \<noteq> [] \<and> current_folder w' = current_folder w)"
  by (auto simp: get_songs_def Let_def split: if_splits)

lemma randint_in_range:
  assumes "randint env 0 (int n - 1) = Inr i"
  shows "0 \<le> i \<and> i < int n \<and> 0 < n"
proof -
  have n: "0 < int n" using assms by (auto simp: randint_def split: if_splits)
  have i: "i = int (random_raw env) mod int n"
    using assms by (auto simp: randint_def split: if_splits)
  show ?thesis using n by (simp add: i)
qed

lemma change_folder_in_range:
  assumes "and_then (select_folder env w) (\<lambda>_ w1.
             and_then (get_songs env w1) (\<lambda>_ w2.
               play_song env (w2\<lparr>current_song_index := 0\<rparr>))) = (r, w')"
    and "\<not> is_raise r" and "index_in_range w"
  shows "index_in_range w'"
proof -
  from and_then_no_raise [OF assms(1,2)]
  consider (pending) "fst (select_folder env w) = Pending" "w' = snd (select_folder env w)"
    | (selected) x where "fst (select_folder env w) = Returns x"
        "and_then (get_songs env (snd (select_folder env w))) (\<lambda>_ w2.
           play_song env (w2\<lparr>current_song_index := 0\<rparr>)) = (r, w')"
    by blast
  then show ?thesis
  proof cases
    case pending
    then show ?thesis
      using select_folder_same_tracks [of w env] assms(3) by (auto intro: same_tracks_in_range)
  next
    case selected
    obtain g w2 where g: "get_songs env (snd (select_folder env w)) = (g, w2)"
      by (cases "get_songs env (snd (select_folder env w))")
    from get_songs_outcome [OF g] selected(2) assms(2) g
    have s: "songs w2 \<noteq> []" and p: "play_song env (w2\<lparr>current_song_index := 0\<rparr>) = (r, w')"
      by (auto simp: and_then_def)
    have "index_in_range (w2\<lparr>current_song_index := 0\<rparr>)"
      using s by (simp add: index_in_range_def)
    then show ?thesis using play_song_in_range [of "w2\<lparr>current_song_index := 0\<rparr>" env] p by simp
  qed
qed

lemma key_action_in_range:
  assumes "index_in_range w"
  shows "\<not> is_raise (fst (key_action env key w)) \<longrightarrow> index_in_range (snd (key_action env key w))"
proof (rule key_action_branches)
  show "\<not> is_raise (fst (main_like env w)) \<longrightarrow> index_in_range (snd (main_like env w))"
    using assms
    by (simp add: main_like_def index_in_range_def split: append_io.splits sum.splits)
  show "\<not> is_raise (fst (main_dislike env w)) \<longrightarrow> index_in_range (snd (main_dislike env w))"
    using assms
    by (simp add: main_dislike_def index_in_range_def split: append_io.splits sum.splits)
  show "\<not> is_raise (fst (and_then (circular_advance w) (\<lambda>_ w1. play_song env w1)))
      \<longrightarrow> index_in_range (snd (and_then (circular_advance w) (\<lambda>_ w1. play_song env w1)))"
    using advance_and_play_in_range [OF assms] by simp
  show "\<not> is_raise (fst (and_then (choose_song env w) (\<lambda>chosen w1.
          if chosen then play_song env w1 else (Returns (), w1\<lparr>needs_full_redraw := True\<rparr>))))
      \<longrightarrow> index_in_range (snd (and_then (choose_song env w) (\<lambda>chosen w1.
          if chosen then play_song env w1 else (Returns (), w1\<lparr>needs_full_redraw := True\<rparr>))))"
  proof -
    have c: "index_in_range (snd (choose_song env w))"
      using assms by (rule choose_song_in_range)
    then have "index_in_range ((snd (choose_song env w))\<lparr>needs_full_redraw := True\<rparr>)"
      by (simp add: index_in_range_def)
    then show ?thesis
      using c play_song_in_range [OF c, of env]
      by (simp add: and_then_cases split: result.splits)
  qed
  show "\<not> is_raise (fst (and_then (select_folder env w) (\<lambda>_ w1.
        and_then (get_songs env w1) (\<lambda>_ w2.
          play_song env (w2\<lparr>current_song_index := 0\<rparr>)))))
      \<longrightarrow> index_in_range (snd (and_then (select_folder env w) (\<lambda>_ w1.
        and_then (get_songs env w1) (\<lambda>_ w2.
          play_song env (w2\<lparr>current_song_index := 0\<rparr>)))))"
    using change_folder_in_range [OF _ _ assms, of env] by (metis prod.collapse)
  show "\<not> is_raise (fst (cleanup env w :: unit result \<times> world))
      \<longrightarrow> index_in_range (snd (cleanup env w :: unit result \<times> world))"
    by (simp add: cleanup_raises)
  show "\<not> is_raise (fst (and_then (send_mpv_command env c w) (\<lambda>_ w1. (Returns (), w1))))
      \<longrightarrow> index_in_range (snd (and_then (send_mpv_command env c w) (\<lambda>_ w1. (Returns (), w1))))"
    for c
  proof -
    have "same_tracks w (snd (and_then (send_mpv_command env c w) (\<lambda>_ w1. (Returns (), w1))))"
      by (rule and_then_same_tracks) (simp_all add: send_mpv_command_same_tracks)
    then show ?thesis using assms by (auto intro: same_tracks_in_range)
  qed
  show "\<not> is_raise (fst (Returns (), w)) \<longrightarrow> index_in_range (snd (Returns (), w))"
    using assms by simp
qed

lemma main_key_in_range:
  assumes "index_in_range w" and "\<not> is_raise (fst (main_key env key w))"
  shows "index_in_range (snd (main_key env key w))"
proof -
  obtain r w1 where k: "key_action env key w = (r, w1)" by (cases "key_action env key w")
  have n: "\<not> is_raise r" using assms(2) k by (cases r) (simp_all add: main_key_def and_then_def)
  have "index_in_range w1" using key_action_in_range [OF assms(1), of env key] k n by simp
  then show ?thesis
    using k by (cases r) (simp_all add: main_key_def and_then_def index_in_range_def)
qed

lemma main_dispatch_in_range:
  assumes "index_in_range w" and "\<not> is_raise (fst (main_dispatch env w))"
  shows "index_in_range (snd (main_dispatch env w))"
proof (cases "mpv_process w \<noteq> None \<and> \<not> player_alive w")
  case True
  then show ?thesis
    using advance_and_play_in_range [OF assms(1), of env]
    by (simp add: main_dispatch_def main_player_exit_def)
next
  case False
  then have d: "main_dispatch env w =
        and_then (if falsy (get_key env) then (Returns (), w)
                  else main_key env (the (get_key env)) w) (\<lambda>_ w1.
          (Returns (), emit (Sleep (1 / 10)) w1))"
    by (simp only: main_dispatch_def if_False)
  show ?thesis
  proof (cases "falsy (get_key env)")
    case True
    then show ?thesis using assms(1)
      by (simp add: d and_then_def index_in_range_def)
  next
    case nf: False
    obtain r w1 where k: "main_key env (the (get_key env)) w = (r, w1)"
      by (cases "main_key env (the (get_key env)) w")
    have n: "\<not> is_raise r"
      using assms(2) nf k by (cases r) (simp_all add: d and_then_def)
    have "index_in_range w1"
      using main_key_in_range [OF assms(1), of env "the (get_key env)"] k n by simp
    then show ?thesis
      using nf k by (cases r) (simp_all add: d and_then_def index_in_range_def)
  qed
qed

lemma only_display_in_range: "only_display w w' \<Longrightarrow> index_in_range w \<Longrightarrow> index_in_range w'"
  by (simp add: only_display_def index_in_range_def)

lemma main_loop_body_in_range:
  assumes "index_in_range w" and "main_loop_body env w = (r, w')" and "\<not> is_raise r"
  shows "index_in_range w'"
proof -
  from main_loop_body_split [OF assms(2)] assms(3)
  obtain w2 where d: "only_display w w2" and m: "main_dispatch env w2 = (r, w')"
    by auto
  have "index_in_range w2" using d assms(1) by (rule only_display_in_range)
  then show ?thesis using main_dispatch_in_range [of w2 env] m assms(3) by simp
qed

lemma main_iteration_in_range:
  assumes "index_in_range w" and "main_iteration env w = (r, w')" and "\<not> is_raise r"
  shows "index_in_range w'"
proof -
  obtain b w1 where b: "main_loop_body env w = (b, w1)" by (cases "main_loop_body env w")
  show ?thesis
  proof (cases b)
    case (Raises e)
    then have "is_raise r"
      using assms(2) b cleanup_raises [of env w1, where 'a = unit]
      by (simp add: main_iteration_def)
    then show ?thesis using assms(3) by simp
  next
    case (Returns u)
    then show ?thesis
      using assms b main_loop_body_in_range [OF assms(1) b] by (simp add: main_iteration_def)
  next
    case Pending
    then show ?thesis
      using assms b main_loop_body_in_range [OF assms(1) b] by (simp add: main_iteration_def)
  qed
qed

lemma player_exits_in_range: "index_in_range w \<Longrightarrow> index_in_range (player_exits w)"
  by (simp add: player_exits_def index_in_range_def split: option.splits)

lemma main_loop_in_range:
  "index_in_range w \<Longrightarrow> main_loop envs w = (r, w') \<Longrightarrow> \<not> is_raise r \<Longrightarrow> index_in_range w'"
proof (induction envs arbitrary: w)
  case Nil
  then show ?case by simp
next
  case (Cons env envs)
  let ?w0 = "if player_died env then player_exits w else w"
  have w0: "index_in_range ?w0" using Cons.prems(1) by (simp add: player_exits_in_range)
  obtain i w1 where i: "main_iteration env ?w0 = (i, w1)" by (cases "main_iteration env ?w0")
  show ?case
  proof (cases i)
    case (Returns u)
    have "index_in_range w1" using main_iteration_in_range [OF w0 i] Returns by simp
    moreover have "main_loop envs w1 = (r, w')" using Cons.prems(2) i Returns by simp
    ultimately show ?thesis using Cons.IH Cons.prems(3) by blast
  next
    case (Raises e)
    then show ?thesis using Cons.prems i by auto
  next
    case Pending
    then have "w' = w1" using Cons.prems(2) i by simp
    then show ?thesis using main_iteration_in_range [OF w0 i] Pending by simp
  qed
qed

lemma main_startup_in_range:
  assumes "main_startup env w = (Returns u, w')"
  shows "index_in_range w'"
proof -
  let ?w1 = "emit Signal_handlers
               (emit Setcbreak ((emit Tcgetattr w)\<lparr>old_termios_settings := True\<rparr>))"
  have tty: "stdin_isatty env" using assms by (auto simp: main_startup_def split: if_splits)
  obtain r2 w2 where s: "select_folder env ?w1 = (r2, w2)" by (cases "select_folder env ?w1")
  obtain r3 w3 where g: "get_songs env w2 = (r3, w3)" by (cases "get_songs env w2")
  have r2: "r2 = Returns ()"
    using assms tty s by (cases r2) (simp_all add: main_startup_def Let_def and_then_def)
  have r3: "r3 = Returns ()"
    using assms tty s r2 g by (cases r3) (simp_all add: main_startup_def Let_def and_then_def)
  have nonempty: "songs w3 \<noteq> []" using get_songs_outcome [OF g] r3 by auto
  obtain i where i: "randint env 0 (int (length (songs w3)) - 1) = Inr i"
    using assms tty s r2 g r3
    by (cases "randint env 0 (int (length (songs w3)) - 1)")
       (simp_all add: main_startup_def Let_def and_then_def)
  have range: "index_in_range (w3\<lparr>current_song_index := i\<rparr>)"
    using randint_in_range [OF i] nonempty by (simp add: index_in_range_def)
  obtain r4 w4 where p: "play_song env (w3\<lparr>current_song_index := i\<rparr>) = (r4, w4)"
    by (cases "play_song env (w3\<lparr>current_song_index := i\<rparr>)")
  have w4: "index_in_range w4" using play_song_in_range [OF range, of env] p by simp
  have "w' = (hide_cursor w4)\<lparr>last_progress_update := 0\<rparr>"
    using assms tty s r2 g r3 i p
    by (cases r4) (simp_all add: main_startup_def Let_def and_then_def)
  then show ?thesis using w4 by (simp add: index_in_range_def)
qed

text \<open>
  C5. \<open>0 \<le> index < len(tracks)\<close> holds when startup has made its random pick, and
  every pass of the main loop that does not end the program keeps it: after a
  circular advance (\<open>next\<close> key or exited player), after a track is chosen in the
  picker, and after a change of folder, which sets the index to 0 in a list that is
  not empty.
\<close>

theorem index_in_range_invariant:
  "(main_startup env w = (Returns (), w') \<longrightarrow> index_in_range w')
   \<and> (index_in_range w \<and> main_iteration env w = (Returns (), w') \<longrightarrow> index_in_range w')
   \<and> (index_in_range w \<and> main_loop envs w = (Pending, w') \<longrightarrow> index_in_range w')
   \<and> (randint env 0 (int (length (songs w)) - 1) = Inr i
        \<longrightarrow> index_in_range (w\<lparr>current_song_index := i\<rparr>))
   \<and> (songs w \<noteq> [] \<longrightarrow> index_in_range (snd (circular_advance w)))
   \<and> (index_in_range w \<longrightarrow> index_in_range (snd (main_player_exit env w)))
   \<and> (index_in_range w \<longrightarrow> index_in_range (snd (choose_song env w)))
   \<and> (key_action env ''c'' w = (Returns (), w')
        \<longrightarrow> current_song_index w' = 0 \<and> songs w' \<noteq> [])"
proof (intro conjI impI)
  show "index_in_range w'" if "main_startup env w = (Returns (), w')"
    using that by (rule main_startup_in_range)
  show "index_in_range w'" if "index_in_range w \<and> main_iteration env w = (Returns (), w')"
    using that main_iteration_in_range [of w env "Returns ()" w'] by simp
  show "index_in_range w'" if "index_in_range w \<and> main_loop envs w = (Pending, w')"
    using that main_loop_in_range [of w envs Pending w'] by simp
  show "index_in_range (w\<lparr>current_song_index := i\<rparr>)"
    if "randint env 0 (int (length (songs w)) - 1) = Inr i"
    using randint_in_range [OF that] by (simp add: index_in_range_def)
  show "index_in_range (snd (circular_advance w))" if "songs w \<noteq> []"
    using that by (rule circular_advance_in_range)
  show "index_in_range (snd (main_player_exit env w))" if "index_in_range w"
    using advance_and_play_in_range [OF that] by (simp add: main_player_exit_def)
  show "index_in_range (snd (choose_song env w))" if "index_in_range w"
    using that by (rule choose_song_in_range)
next
  assume c: "key_action env ''c'' w = (Returns (), w')"
  have k: "key_action env ''c'' w =
        and_then (select_folder env w) (\<lambda>_ w1.
        and_then (get_songs env w1) (\<lambda>_ w2.
          play_song env (w2\<lparr>current_song_index := 0\<rparr>)))"
    by (simp add: key_action_def)
  obtain r1 w1 where s: "select_folder env w = (r1, w1)" by (cases "select_folder env w")
  obtain r2 w2 where g: "get_songs env w1 = (r2, w2)" by (cases "get_songs env w1")
  have r1: "r1 = Returns ()" using c k s by (cases r1) (simp_all add: and_then_def)
  have r2: "r2 = Returns ()" using c k s r1 g by (cases r2) (simp_all add: and_then_def)
  have p: "play_song env (w2\<lparr>current_song_index := 0\<rparr>) = (Returns (), w')"
    using c k s r1 g r2 by (simp add: and_then_def)
  have "same_tracks (w2\<lparr>current_song_index := 0\<rparr>) w'"
    using play_song_same_tracks [of "w2\<lparr>current_song_index := 0\<rparr>" env] p by simp
  moreover have "songs w2 \<noteq> []" using get_songs_outcome [OF g] r2 by auto
  ultimately show "current_song_index w' = 0" "songs w' \<noteq> []"
    by (simp_all add: same_tracks_def)
qed

theorem index_in_range_invariant_witness:
  "fst (main_startup library_env fresh_world) = Returns ()
   \<and> index_in_range (snd (main_startup library_env fresh_world))
   \<and> index_in_range three_tracks
   \<and> main_iteration quiet_env three_tracks = (Returns (), emit (Sleep (1 / 10)) three_tracks)
   \<and> index_in_range (emit (Sleep (1 / 10)) three_tracks)"
proof -
  have s: "fst (main_startup library_env fresh_world) = Returns ()"
    by code_simp
  then have s': "main_startup library_env fresh_world
                   = (Returns (), snd (main_startup library_env fresh_world))"
    by (simp add: prod_eq_iff)
  have t: "index_in_range three_tracks"
    by (simp add: index_in_range_def three_tracks_def)
  have i: "main_iteration quiet_env three_tracks = (Returns (), emit (Sleep (1 / 10)) three_tracks)"
    by (simp add: main_iteration_def main_loop_body_def main_redraw_def main_poll_def
          main_dispatch_def and_then_def quiet_env_def three_tracks_def player_alive_def
          get_key_def falsy_def)
  note inv = index_in_range_invariant
  have a: "index_in_range (snd (main_startup library_env fresh_world))"
    using inv [of library_env fresh_world "snd (main_startup library_env fresh_world)",
               THEN conjunct1] s'
    by blast
  have b: "index_in_range (emit (Sleep (1 / 10)) three_tracks)"
    using inv [of quiet_env three_tracks "emit (Sleep (1 / 10)) three_tracks",
               THEN conjunct2, THEN conjunct1] t i
    by blast
  show ?thesis using s a t i b by blast
qed

subsection \<open>Keys\<close>






subsection \<open>The status line\<close>

lemma halves_upto: "list_all (\<lambda>m. round_double (of_int m / 2) = of_int m / 2) [1..100]"
  by code_simp

lemma round_double_half:
  assumes "0 \<le> p" and "p \<le> 100"
  shows "round_double (of_int p / 2) = of_int p / 2"
proof (cases "p = 0")
  case True
  then show ?thesis by (simp add: round_double_def)
next
  case False
  then have "p \<in> set [1..100]" using assms by simp
  then show ?thesis using halves_upto by (simp only: list_all_iff)
qed

lemma below_threshold: "(2::rat) ^ 1023 \<le> 2 ^ 1024 - 2 ^ 970"
  by simp

lemma to_double_in_range: "\<bar>q\<bar> < 2 ^ 1023 \<Longrightarrow> to_double q = Inr (round_double q)"
  using below_threshold by (simp only: to_double_def) auto

lemma to_double_zero: "to_double 0 = Inr 0"
  by (simp add: to_double_in_range round_double_def)

lemma to_double_half:
  assumes "0 \<le> p" and "p \<le> 100"
  shows "to_double (of_int p / 2) = Inr (of_int p / 2)"
proof -
  have "\<bar>of_int p / 2 :: rat\<bar> \<le> 50" using assms by simp
  moreover have "(50::rat) < 2 ^ 1023" by simp
  ultimately have "\<bar>of_int p / 2 :: rat\<bar> < 2 ^ 1023" by linarith
  then have "to_double (of_int p / 2) = Inr (round_double (of_int p / 2))"
    by (rule to_double_in_range)
  then show ?thesis by (simp only: round_double_half [OF assms])
qed

lemma py_trunc_half:
  assumes "0 \<le> p"
  shows "py_trunc (of_int p / 2) = p div 2"
proof -
  have "\<lfloor>(of_int p / of_int 2 :: rat)\<rfloor> = p div 2" by (rule floor_divide_of_int_eq)
  then have f: "\<lfloor>(of_int p / 2 :: rat)\<rfloor> = p div 2" by simp
  have "(0::rat) \<le> of_int p / 2" using assms by simp
  then show ?thesis using f by (simp only: py_trunc_def if_True)
qed

lemma py_trunc_percent:
  assumes "0 \<le> r" and "r \<le> 100"
  shows "0 \<le> py_trunc r \<and> py_trunc r \<le> 100"
proof -
  have "\<lfloor>r\<rfloor> \<le> \<lfloor>100 :: rat\<rfloor>" using assms(2) by (rule floor_mono)
  then show ?thesis using assms(1) by (simp add: py_trunc_def)
qed

lemma str_times_cells:
  assumes "0 \<le> n" and "n \<le> 50"
  shows "str_times s n = Inr (concat (replicate (nat n) s))"
  using assms by (simp add: str_times_def PY_SSIZE_T_MAX_def)

lemma draw_progress_bar_percent:
  assumes "py_float str2f (py_or percent (PInt 0)) = Inr (Fin r)" and "0 \<le> r" and "r \<le> 100"
  shows "draw_progress_bar str2f percent = Inr (bar_text (py_trunc r))"
proof -
  note p = py_trunc_percent [OF assms(2,3)]
  have d: "to_double (of_int (py_trunc r) / 2) = Inr (of_int (py_trunc r) / 2)"
    using p [THEN conjunct1] p [THEN conjunct2] by (rule to_double_half)
  have t: "py_trunc (of_int (py_trunc r) / 2) = py_trunc r div 2"
    using p [THEN conjunct1] by (rule py_trunc_half)
  have c: "0 \<le> py_trunc r div 2" "py_trunc r div 2 \<le> 50"
    "0 \<le> 50 - py_trunc r div 2" "50 - py_trunc r div 2 \<le> 50"
    using p by presburger+
  have f: "str_times full_block (py_trunc r div 2)
             = Inr (concat (replicate (nat (py_trunc r div 2)) full_block))"
    using c(1,2) by (rule str_times_cells)
  have e: "str_times light_shade (50 - py_trunc r div 2)
             = Inr (concat (replicate (nat (50 - py_trunc r div 2)) light_shade))"
    using c(3,4) by (rule str_times_cells)
  show ?thesis
    by (simp add: draw_progress_bar_def assms(1) d t f e bar_text_def width_def Let_def)
qed





lemma progress_line_bar:
  assumes "py_float str2f (py_or percent (PInt 0)) = Inr (Fin r)" and "0 < r" and "r \<le> 100"
    and "format_time_str str2f pos = Inr cur" and "format_time_str str2f dur = Inr tot"
  shows "progress_line str2f percent pos dur
           = Inr (bar_text (py_trunc r) @ '' '' @ ESC @ ''[1;37m'' @ cur @ '' / '' @ tot
                   @ ESC @ ''[0m'')"
proof -
  have n: "percent \<noteq> PNone"
    using assms(1,2) by (auto simp: py_or_def to_double_def round_double_def)
  have b: "draw_progress_bar str2f percent = Inr (bar_text (py_trunc r))"
    using assms(1-3) by (simp add: draw_progress_bar_percent)
  show ?thesis using n assms(1,2,4,5) b by (simp add: progress_line_def)
qed

lemma time_90: "format_time_str str2f (PFloat (Fin 90)) = Inr ''01:30''"
  by code_simp






subsection \<open>The preference logs\<close>

lemma show_feedback_trace:
  "trace (show_feedback m c d w) = trace w @ flash_events m c d w"
  by (simp add: show_feedback_def flash_events_def Let_def)

lemma show_feedback_eq:
  "show_feedback m c d w = w\<lparr>trace := trace w @ flash_events m c d w\<rparr>"
  by (simp add: show_feedback_def flash_events_def Let_def emit_def)

lemma py_index_in_range:
  assumes "index_in_range w"
  shows "py_index (songs w) (current_song_index w) = Inr (songs w ! nat (current_song_index w))"
  using assms by (simp add: index_in_range_def py_index_def)

lemma like_key: "key = ''l'' \<or> key = ''L'' \<Longrightarrow> key_action env key w = main_like env w"
  by (simp only: key_action_def if_True)

lemma dislike_key: "key = ''d'' \<or> key = ''D'' \<Longrightarrow> key_action env key w = main_dislike env w"
proof -
  assume k: "key = ''d'' \<or> key = ''D''"
  then have n: "\<not> (key = ''l'' \<or> key = ''L'')" by auto
  show ?thesis using k n by (simp only: key_action_def if_True if_False)
qed

lemma quiet_like: "key = ''l'' \<or> key = ''L'' \<or> key = ''d'' \<or> key = ''D'' \<Longrightarrow> key \<in> set quiet_keys"
  by (auto simp: quiet_keys_def)

lemma like_action:
  assumes "index_in_range w" and "key = ''l'' \<or> key = ''L''"
    and "append_log env LIKES_FILE = Appended"
  shows "main_key env key w =
     (Returns (),
      w\<lparr>likes_file := likes_file w @ current_folder w @ ''/''
                         @ songs w ! nat (current_song_index w) @ [CHR 0x0A],
        trace := trace w @ flash_events ''Liked!'' ''1;32'' 1 w\<rparr>)"
proof -
  have q: "key \<in> set quiet_keys" using assms(2) by (auto simp: quiet_keys_def)
  show ?thesis
    by (simp add: main_key_def like_key [OF assms(2)] main_like_def assms(3)
          py_index_in_range [OF assms(1)] and_then_def q show_feedback_eq flash_events_def)
qed

lemma dislike_action:
  assumes "index_in_range w" and "key = ''d'' \<or> key = ''D''"
    and "append_log env DISLIKES_FILE = Appended"
  shows "main_key env key w =
     (Returns (),
      w\<lparr>dislikes_file := dislikes_file w @ current_folder w @ ''/''
                            @ songs w ! nat (current_song_index w) @ [CHR 0x0A],
        trace := trace w @ flash_events ''Disliked!'' ''1;31'' 1 w\<rparr>)"
proof -
  have q: "key \<in> set quiet_keys" using assms(2) by (auto simp: quiet_keys_def)
  show ?thesis
    by (simp add: main_key_def dislike_key [OF assms(2)] main_dislike_def assms(3)
          py_index_in_range [OF assms(1)] and_then_def q show_feedback_eq flash_events_def)
qed

lemma like_refused:
  assumes "key = ''l'' \<or> key = ''L''" and "append_log env LIKES_FILE = OpenRaises e"
  shows "main_key env key w = (Raises e, w)"
  by (simp add: main_key_def like_key [OF assms(1)] main_like_def assms(2) and_then_def)

lemma dislike_refused:
  assumes "key = ''d'' \<or> key = ''D''" and "append_log env DISLIKES_FILE = OpenRaises e"
  shows "main_key env key w = (Raises e, w)"
  by (simp add: main_key_def dislike_key [OF assms(1)] main_dislike_def assms(2) and_then_def)

text \<open>Whatever becomes of the append, the two keys leave the session as it is.\<close>

lemma main_like_frame:
  "current_folder (snd (main_like env w)) = current_folder w
   \<and> songs (snd (main_like env w)) = songs w
   \<and> current_song_index (snd (main_like env w)) = current_song_index w
   \<and> needs_full_redraw (snd (main_like env w)) = needs_full_redraw w
   \<and> mpv_process (snd (main_like env w)) = mpv_process w
   \<and> dislikes_file (snd (main_like env w)) = dislikes_file w"
  by (simp add: main_like_def split: append_io.splits sum.splits)

lemma main_dislike_frame:
  "current_folder (snd (main_dislike env w)) = current_folder w
   \<and> songs (snd (main_dislike env w)) = songs w
   \<and> current_song_index (snd (main_dislike env w)) = current_song_index w
   \<and> needs_full_redraw (snd (main_dislike env w)) = needs_full_redraw w
   \<and> mpv_process (snd (main_dislike env w)) = mpv_process w
   \<and> likes_file (snd (main_dislike env w)) = likes_file w"
  by (simp add: main_dislike_def split: append_io.splits sum.splits)

lemma main_key_quiet:
  assumes "key \<in> set quiet_keys"
  shows "snd (main_key env key w) = snd (key_action env key w)"
  using assms by (simp add: main_key_def and_then_cases split: result.splits)

text \<open>
  C8 (as the code has it). A \<open>like\<close> or \<open>dislike\<close> key, with the index inside the
  list and a log that can be opened for appending and takes the line, appends
  exactly the line \<open>folder/track-name\<close> of the current track, ended by one line
  feed, to the log of that key (the log gains one line feed when neither name
  holds one) and shows the transient message; nothing else happens outside. When
  the log cannot be opened, nothing is appended, no message is shown and the
  exception is raised to the main loop. In every case folder, track list, index,
  the other log and the full-redraw flag are as before.
\<close>

theorem like_dislike_frame:
  assumes "index_in_range w"
  shows "((key = ''l'' \<or> key = ''L'') \<and> append_log env LIKES_FILE = Appended \<longrightarrow>
            main_key env key w =
              (Returns (),
               w\<lparr>likes_file := likes_file w @ current_folder w @ ''/''
                                  @ songs w ! nat (current_song_index w) @ [CHR 0x0A],
                 trace := trace w @ flash_events ''Liked!'' ''1;32'' 1 w\<rparr>))
    \<and> ((key = ''d'' \<or> key = ''D'') \<and> append_log env DISLIKES_FILE = Appended \<longrightarrow>
            main_key env key w =
              (Returns (),
               w\<lparr>dislikes_file := dislikes_file w @ current_folder w @ ''/''
                                     @ songs w ! nat (current_song_index w) @ [CHR 0x0A],
                 trace := trace w @ flash_events ''Disliked!'' ''1;31'' 1 w\<rparr>))
    \<and> ((key = ''l'' \<or> key = ''L'') \<and> append_log env LIKES_FILE = OpenRaises e \<longrightarrow>
            main_key env key w = (Raises e, w))
    \<and> ((key = ''d'' \<or> key = ''D'') \<and> append_log env DISLIKES_FILE = OpenRaises e \<longrightarrow>
            main_key env key w = (Raises e, w))
    \<and> (key = ''l'' \<or> key = ''L'' \<or> key = ''d'' \<or> key = ''D'' \<longrightarrow>
            current_folder (snd (main_key env key w)) = current_folder w
            \<and> songs (snd (main_key env key w)) = songs w
            \<and> current_song_index (snd (main_key env key w)) = current_song_index w
            \<and> needs_full_redraw (snd (main_key env key w)) = needs_full_redraw w
            \<and> mpv_process (snd (main_key env key w)) = mpv_process w)
    \<and> (key = ''l'' \<or> key = ''L'' \<longrightarrow>
            dislikes_file (snd (main_key env key w)) = dislikes_file w)
    \<and> (key = ''d'' \<or> key = ''D'' \<longrightarrow>
            likes_file (snd (main_key env key w)) = likes_file w)
    \<and> ((key = ''l'' \<or> key = ''L'') \<and> append_log env LIKES_FILE = Appended
         \<and> CHR 0x0A \<notin> set (current_folder w)
         \<and> CHR 0x0A \<notin> set (songs w ! nat (current_song_index w)) \<longrightarrow>
            count_list (likes_file (snd (main_key env key w))) (CHR 0x0A)
              = count_list (likes_file w) (CHR 0x0A) + 1)
    \<and> ((key = ''d'' \<or> key = ''D'') \<and> append_log env DISLIKES_FILE = Appended
         \<and> CHR 0x0A \<notin> set (current_folder w)
         \<and> CHR 0x0A \<notin> set (songs w ! nat (current_song_index w)) \<longrightarrow>
            count_list (dislikes_file (snd (main_key env key w))) (CHR 0x0A)
              = count_list (dislikes_file w) (CHR 0x0A) + 1)"
proof (intro conjI impI)
  show "main_key env key w =
              (Returns (),
               w\<lparr>likes_file := likes_file w @ current_folder w @ ''/''
                                  @ songs w ! nat (current_song_index w) @ [CHR 0x0A],
                 trace := trace w @ flash_events ''Liked!'' ''1;32'' 1 w\<rparr>)"
    if "(key = ''l'' \<or> key = ''L'') \<and> append_log env LIKES_FILE = Appended"
    using assms that by (simp add: like_action)
  show "main_key env key w =
              (Returns (),
               w\<lparr>dislikes_file := dislikes_file w @ current_folder w @ ''/''
                                     @ songs w ! nat (current_song_index w) @ [CHR 0x0A],
                 trace := trace w @ flash_events ''Disliked!'' ''1;31'' 1 w\<rparr>)"
    if "(key = ''d'' \<or> key = ''D'') \<and> append_log env DISLIKES_FILE = Appended"
    using assms that by (simp add: dislike_action)
  show "main_key env key w = (Raises e, w)"
    if "(key = ''l'' \<or> key = ''L'') \<and> append_log env LIKES_FILE = OpenRaises e"
    using that by (simp add: like_refused)
  show "main_key env key w = (Raises e, w)"
    if "(key = ''d'' \<or> key = ''D'') \<and> append_log env DISLIKES_FILE = OpenRaises e"
    using that by (simp add: dislike_refused)
  show "dislikes_file (snd (main_key env key w)) = dislikes_file w"
    if k: "key = ''l'' \<or> key = ''L''"
  proof -
    have "key \<in> set quiet_keys" using k by (auto simp: quiet_keys_def)
    then show ?thesis using main_like_frame [of env w] by (simp add: main_key_quiet like_key [OF k])
  qed
  show "likes_file (snd (main_key env key w)) = likes_file w"
    if k: "key = ''d'' \<or> key = ''D''"
  proof -
    have "key \<in> set quiet_keys" using k by (auto simp: quiet_keys_def)
    then show ?thesis
      using main_dislike_frame [of env w] by (simp add: main_key_quiet dislike_key [OF k])
  qed
  show "count_list (likes_file (snd (main_key env key w))) (CHR 0x0A)
              = count_list (likes_file w) (CHR 0x0A) + 1"
    if "(key = ''l'' \<or> key = ''L'') \<and> append_log env LIKES_FILE = Appended
         \<and> CHR 0x0A \<notin> set (current_folder w)
         \<and> CHR 0x0A \<notin> set (songs w ! nat (current_song_index w))"
  proof -
    have "likes_file (snd (main_key env key w))
            = likes_file w @ (current_folder w @ ''/'' @ songs w ! nat (current_song_index w)
                               @ [CHR 0x0A])"
      using assms that by (simp add: like_action)
    then show ?thesis using that by (simp add: count_list_0_iff)
  qed
  show "count_list (dislikes_file (snd (main_key env key w))) (CHR 0x0A)
              = count_list (dislikes_file w) (CHR 0x0A) + 1"
    if "(key = ''d'' \<or> key = ''D'') \<and> append_log env DISLIKES_FILE = Appended
         \<and> CHR 0x0A \<notin> set (current_folder w)
         \<and> CHR 0x0A \<notin> set (songs w ! nat (current_song_index w))"
  proof -
    have "dislikes_file (snd (main_key env key w))
            = dislikes_file w @ (current_folder w @ ''/'' @ songs w ! nat (current_song_index w)
                                  @ [CHR 0x0A])"
      using assms that by (simp add: dislike_action)
    then show ?thesis using that by (simp add: count_list_0_iff)
  qed
next
  assume k: "key = ''l'' \<or> key = ''L'' \<or> key = ''d'' \<or> key = ''D''"
  then have q: "key \<in> set quiet_keys" by (rule quiet_like)
  from k consider "key = ''l'' \<or> key = ''L''" | "key = ''d'' \<or> key = ''D''" by metis
  then have "current_folder (snd (main_key env key w)) = current_folder w
            \<and> songs (snd (main_key env key w)) = songs w
            \<and> current_song_index (snd (main_key env key w)) = current_song_index w
            \<and> needs_full_redraw (snd (main_key env key w)) = needs_full_redraw w
            \<and> mpv_process (snd (main_key env key w)) = mpv_process w"
  proof cases
    case 1
    show ?thesis using main_like_frame [of env w] by (simp add: main_key_quiet [OF q] like_key [OF 1])
  next
    case 2
    show ?thesis
      using main_dislike_frame [of env w] by (simp add: main_key_quiet [OF q] dislike_key [OF 2])
  qed
  then show "current_folder (snd (main_key env key w)) = current_folder w"
    "songs (snd (main_key env key w)) = songs w"
    "current_song_index (snd (main_key env key w)) = current_song_index w"
    "needs_full_redraw (snd (main_key env key w)) = needs_full_redraw w"
    "mpv_process (snd (main_key env key w)) = mpv_process w"
    by simp_all
qed

text \<open>
  The \<open>like\<close> key for folder \<open>X\<close> and track \<open>y.mp3\<close>: the log, empty before, holds the
  one line, and the flag stays clear.
\<close>

theorem like_dislike_frame_witness:
  "index_in_range one_track
   \<and> append_log quiet_env LIKES_FILE = Appended
   \<and> fst (main_key quiet_env ''l'' one_track) = Returns ()
   \<and> likes_file (snd (main_key quiet_env ''l'' one_track))
       = [CHR ''X'', CHR ''/'', CHR ''y'', CHR ''.'', CHR ''m'', CHR ''p'', CHR ''3'', CHR 0x0A]
   \<and> dislikes_file (snd (main_key quiet_env ''l'' one_track)) = []
   \<and> \<not> needs_full_redraw (snd (main_key quiet_env ''l'' one_track))"
proof -
  have r: "index_in_range one_track"
    by (simp add: index_in_range_def one_track_def three_tracks_def)
  have a: "append_log quiet_env LIKES_FILE = Appended" by (simp add: quiet_env_def)
  have f: "likes_file one_track = []" "dislikes_file one_track = []"
    "current_folder one_track = ''X''" "songs one_track ! nat (current_song_index one_track) = ''y.mp3''"
    "\<not> needs_full_redraw one_track"
    by (simp_all add: one_track_def three_tracks_def)
  from like_dislike_frame [OF r, of "''l''" quiet_env PermissionError, THEN conjunct1] a
  have "main_key quiet_env ''l'' one_track =
              (Returns (),
               one_track\<lparr>likes_file := likes_file one_track @ current_folder one_track @ ''/''
                                  @ songs one_track ! nat (current_song_index one_track)
                                  @ [CHR 0x0A],
                 trace := trace one_track @ flash_events ''Liked!'' ''1;32'' 1 one_track\<rparr>)"
    by blast
  then show ?thesis using r a by (simp add: f)
qed

text \<open>
  The claim as stated fails: with a log that may not be written, \<^verbatim>\<open>open\<close> raises;
  the \<open>like\<close> key appends no line and shows no message, and the exception ends
  the session through \<^verbatim>\<open>cleanup\<close>.
\<close>

theorem like_unwritable_log:
  "index_in_range one_track
   \<and> main_key read_only_env ''l'' one_track = (Raises PermissionError, one_track)
   \<and> likes_file (snd (main_key read_only_env ''l'' one_track)) = likes_file one_track
   \<and> trace (snd (main_key read_only_env ''l'' one_track)) = trace one_track
   \<and> stdin_key read_only_env = Some ''l''
   \<and> fst (main_iteration read_only_env one_track) = Raises (SystemExit 0)"
proof -
  have r: "index_in_range one_track"
    by (simp add: index_in_range_def one_track_def three_tracks_def)
  have k: "main_key read_only_env ''l'' one_track = (Raises PermissionError, one_track)"
    by (simp add: main_key_def key_action_def main_like_def read_only_env_def quiet_env_def
          and_then_def)
  have s: "stdin_key read_only_env = Some ''l''" by (simp add: read_only_env_def)
  have i: "fst (main_iteration read_only_env one_track) = Raises (SystemExit 0)"
    by code_simp
  show ?thesis using r k s i by simp
qed

subsection \<open>Leaving the program\<close>

lemma cleanup_post:
  "sock (snd (cleanup env w :: unit result \<times> world)) = None
   \<and> \<not> player_alive (snd (cleanup env w :: unit result \<times> world))"
  by (auto simp: cleanup_def Let_def player_alive_def stop_player_live split: option.splits)

lemma cleanup_eq:
  "(cleanup env w :: unit result \<times> world)
     = (Raises (SystemExit 0), snd (cleanup env w :: unit result \<times> world))"
  by (simp add: cleanup_def Let_def)

lemma main_iteration_raises:
  assumes "main_iteration env w = (Raises e, w')"
  shows "\<exists>w1. (Raises e, w') = (cleanup env w1 :: unit result \<times> world)"
proof -
  obtain b w1 where b: "main_loop_body env w = (b, w1)" by (cases "main_loop_body env w")
  have "(Raises e, w') = (cleanup env w1 :: unit result \<times> world)"
    using assms b by (cases b) (simp_all add: main_iteration_def)
  then show ?thesis ..
qed

lemma cleaned_up:
  assumes "(Raises e, w') = (cleanup env w1 :: unit result \<times> world)"
  shows "e = SystemExit 0 \<and> sock w' = None \<and> \<not> player_alive w'"
proof -
  have "e = SystemExit 0" using assms cleanup_raises [of env w1, where 'a = unit]
    by (metis fst_conv result.inject(2))
  moreover have "w' = snd (cleanup env w1 :: unit result \<times> world)"
    using assms by (metis snd_conv)
  ultimately show ?thesis using cleanup_post [of env w1] by simp
qed

lemma main_loop_raises:
  "main_loop envs w = (Raises e, w') \<Longrightarrow>
     \<exists>env w1. (Raises e, w') = (cleanup env w1 :: unit result \<times> world)"
proof (induction envs arbitrary: w)
  case Nil
  then show ?case by simp
next
  case (Cons env envs)
  let ?w0 = "if player_died env then player_exits w else w"
  obtain i w1 where i: "main_iteration env ?w0 = (i, w1)" by (cases "main_iteration env ?w0")
  show ?case
  proof (cases i)
    case (Returns u)
    then have "main_loop envs w1 = (Raises e, w')" using Cons.prems i by simp
    then show ?thesis by (rule Cons.IH)
  next
    case (Raises e1)
    then have "main_iteration env ?w0 = (Raises e, w')" using Cons.prems i by simp
    then show ?thesis using main_iteration_raises by blast
  next
    case Pending
    then show ?thesis using Cons.prems i by simp
  qed
qed

lemma quit_key:
  assumes "key = ''q'' \<or> key = ''Q''"
  shows "main_key env key w = cleanup env w"
proof -
  have "key_action env key w = cleanup env w"
    using assms by (auto simp: key_action_def)
  then show ?thesis
    by (simp add: main_key_def and_then_def cleanup_def Let_def)
qed

text \<open>
  What holds of the cleanup path: \<^verbatim>\<open>cleanup\<close> leaves no socket file and no running
  managed player, and ends the program with status 0; every way out of the main
  loop goes through it: the quit key, anything raised in a pass of the loop, and a
  termination signal.
\<close>

lemma loop_exits_through_cleanup:
  "(cleanup env w :: unit result \<times> world) = (Raises (SystemExit 0), snd (cleanup env w :: unit result \<times> world))
   \<and> sock (snd (cleanup env w :: unit result \<times> world)) = None
   \<and> \<not> player_alive (snd (cleanup env w :: unit result \<times> world))
   \<and> main_key env ''q'' w = cleanup env w
   \<and> main_key env ''Q'' w = cleanup env w
   \<and> (main_iteration env w = (Raises e, w') \<longrightarrow>
         e = SystemExit 0 \<and> sock w' = None \<and> \<not> player_alive w'
         \<and> (\<exists>w1. (Raises e, w') = (cleanup env w1 :: unit result \<times> world)))
   \<and> (main_loop envs w = (Raises e, w') \<longrightarrow>
         e = SystemExit 0 \<and> sock w' = None \<and> \<not> player_alive w'
         \<and> (\<exists>env1 w1. (Raises e, w') = (cleanup env1 w1 :: unit result \<times> world)))
   \<and> fst (main_signal env w) = Raises (SystemExit 0)
   \<and> sock (snd (main_signal env w)) = None
   \<and> \<not> player_alive (snd (main_signal env w))"
proof (intro conjI impI)
  show "(cleanup env w :: unit result \<times> world)
          = (Raises (SystemExit 0), snd (cleanup env w :: unit result \<times> world))"
    by (rule cleanup_eq)
  show "sock (snd (cleanup env w :: unit result \<times> world)) = None"
    "\<not> player_alive (snd (cleanup env w :: unit result \<times> world))"
    using cleanup_post [of env w] by simp_all
  show "main_key env ''q'' w = cleanup env w" "main_key env ''Q'' w = cleanup env w"
    by (simp_all add: quit_key)
next
  assume i: "main_iteration env w = (Raises e, w')"
  from main_iteration_raises [OF i] obtain w1
    where c: "(Raises e, w') = (cleanup env w1 :: unit result \<times> world)" ..
  from cleaned_up [OF c]
  show "e = SystemExit 0" "sock w' = None" "\<not> player_alive w'" by simp_all
  show "\<exists>w1. (Raises e, w') = (cleanup env w1 :: unit result \<times> world)" using c ..
next
  assume l: "main_loop envs w = (Raises e, w')"
  from main_loop_raises [OF l] obtain env1 w1
    where c: "(Raises e, w') = (cleanup env1 w1 :: unit result \<times> world)" by blast
  from cleaned_up [OF c]
  show "e = SystemExit 0" "sock w' = None" "\<not> player_alive w'" by simp_all
  show "\<exists>env1 w1. (Raises e, w') = (cleanup env1 w1 :: unit result \<times> world)" using c by blast
next
  have s: "main_signal env w = cleanup env (snd (cleanup env w :: unit result \<times> world))"
  proof -
    obtain r w1 where c: "(cleanup env w :: unit result \<times> world) = (r, w1)"
      by (cases "cleanup env w :: unit result \<times> world")
    have "r = Raises (SystemExit 0)" using cleanup_raises [of env w, where 'a = unit] c by simp
    then show ?thesis using c by (simp add: main_signal_def signal_handler_def)
  qed
  show "fst (main_signal env w) = Raises (SystemExit 0)"
    by (simp add: s cleanup_raises)
  show "sock (snd (main_signal env w)) = None" "\<not> player_alive (snd (main_signal env w))"
    using cleanup_post [of env "snd (cleanup env w :: unit result \<times> world)"]
    by (simp_all add: s)
qed

text \<open>
  C9. After \<^verbatim>\<open>cleanup\<close> the socket file does not exist and the managed player is not
  running, and that one cleanup path is reached on every way out of the program.
  The code departs from it during startup. The script is started in a terminal,
  the three commands installed, in a directory without a folder:
  \<^verbatim>\<open>main\<close> saves the terminal settings, puts the terminal in cbreak mode and
  installs the signal handlers (lines 332-336); \<^verbatim>\<open>select_folder\<close> then prints its
  message and calls \<^verbatim>\<open>sys.exit(1)\<close> (line 77), before the \<^verbatim>\<open>try\<close> of line 348. No
  \<^verbatim>\<open>cleanup\<close> runs: nothing restores the terminal, and the status is 1. The same
  happens with a folder that holds no song (line 108). Other ways out of the same
  startup do call \<^verbatim>\<open>cleanup\<close>: with the picker gone (line 66) the terminal is
  restored and the status is 0.
\<close>

theorem startup_exit_skips_cleanup:
  "check_commands no_folder_env [''mpv'', ''fzf'', ''ffprobe''] fresh_world
     = (Returns (), fresh_world)
   \<and> stdin_isatty no_folder_env
   \<and> run_script no_folder_env [] fresh_world
       = (Raises (SystemExit 1),
          fresh_world
            \<lparr>old_termios_settings := True,
             trace := [Tcgetattr, Setcbreak, Signal_handlers,
                       Stdout (''No music folders found in the current directory.''
                                 @ [CHR 0x0A])]\<rparr>)
   \<and> Tcsetattr \<notin> set (trace (snd (run_script no_folder_env [] fresh_world)))
   \<and> fst (run_script no_songs_env [] fresh_world) = Raises (SystemExit 1)
   \<and> trace (snd (run_script no_songs_env [] fresh_world))
       = [Tcgetattr, Setcbreak, Signal_handlers,
          Stdout (''No songs found in folder '' @ [CHR 0x27] @ ''Unni_Menon'' @ [CHR 0x27]
                    @ [CHR 0x0A])]
   \<and> fst (run_script no_picker_env [] fresh_world) = Raises (SystemExit 0)
   \<and> Setcbreak \<in> set (trace (snd (run_script no_picker_env [] fresh_world)))
   \<and> last (trace (snd (run_script no_picker_env [] fresh_world))) = Tcsetattr"
proof -
  have a: "check_commands no_folder_env [''mpv'', ''fzf'', ''ffprobe''] fresh_world
             = (Returns (), fresh_world)"
    by (simp add: no_folder_env_def quiet_env_def)
  have b: "stdin_isatty no_folder_env" by (simp add: no_folder_env_def quiet_env_def)
  have c: "run_script no_folder_env [] fresh_world
       = (Raises (SystemExit 1),
          fresh_world
            \<lparr>old_termios_settings := True,
             trace := [Tcgetattr, Setcbreak, Signal_handlers,
                       Stdout (''No music folders found in the current directory.''
                                 @ [CHR 0x0A])]\<rparr>)"
    by (simp add: run_script_def and_then_def main_def main_startup_def select_folder_def
          visible_folders_def no_folder_env_def quiet_env_def print_def emit_def
          fresh_world_def Let_def)
  have d: "Tcsetattr \<notin> set (trace (snd (run_script no_folder_env [] fresh_world)))"
    by (simp add: c)
  have e: "fst (run_script no_songs_env [] fresh_world) = Raises (SystemExit 1)"
    by code_simp
  have f: "trace (snd (run_script no_songs_env [] fresh_world))
       = [Tcgetattr, Setcbreak, Signal_handlers,
          Stdout (''No songs found in folder '' @ [CHR 0x27] @ ''Unni_Menon'' @ [CHR 0x27]
                    @ [CHR 0x0A])]"
    by code_simp
  have g: "fst (run_script no_picker_env [] fresh_world) = Raises (SystemExit 0)"
    by code_simp
  have h: "Setcbreak \<in> set (trace (snd (run_script no_picker_env [] fresh_world)))"
    by code_simp
  have i: "last (trace (snd (run_script no_picker_env [] fresh_world))) = Tcsetattr"
    by code_simp
  show ?thesis by (intro conjI) (rule a b c d e f g h i)+
qed

lemma str_nat_digit: "n < 10 \<Longrightarrow> str_nat n = [digit_char n]"
  by (simp add: str_nat.simps)

lemma str_nat_two_digits:
  assumes "10 \<le> n" and "n < 100"
  shows "str_nat n = [digit_char (n div 10), digit_char (n mod 10)]"
proof -
  have "n div 10 < 10" using assms by simp
  then have "str_nat (n div 10) = [digit_char (n div 10)]" by (rule str_nat_digit)
  moreover have "str_nat n = str_nat (n div 10) @ [digit_char (n mod 10)]"
    using assms by (subst str_nat.simps) simp
  ultimately show ?thesis by simp
qed

lemma fmt_02d_length:
  assumes "0 \<le> n" and "n < 100"
  shows "length (fmt_02d n) = 2"
proof (cases "n < 10")
  case True
  then have "nat n < 10" by simp
  then show ?thesis using assms by (simp add: fmt_02d_def str_int_def str_nat_digit)
next
  case False
  then have "10 \<le> nat n" "nat n < 100" using assms by simp_all
  then show ?thesis using assms by (simp add: fmt_02d_def str_int_def str_nat_two_digits)
qed

lemma fmt_02d_zero: "fmt_02d 0 = ''00''"
  by code_simp

lemma format_time_none: "format_time_str str2f PNone = Inr ''00:00''"
  by (simp add: format_time_str_def to_double_zero py_trunc_def fmt_02d_zero)

lemma format_time_rejected:
  assumes "py_float str2f seconds = Inl ValueError \<or> py_float str2f seconds = Inl TypeError
           \<or> py_float str2f seconds = Inr NaN"
  shows "format_time_str str2f seconds = Inr ''00:00''"
proof (cases "seconds = PNone")
  case True
  then show ?thesis by (simp add: format_time_none)
next
  case False
  then show ?thesis using assms by (auto simp: format_time_str_def)
qed

lemma format_time_finite:
  assumes "py_float str2f seconds = Inr (Fin r)"
  shows "format_time_str str2f seconds
           = Inr (fmt_02d (py_trunc r div 60) @ '':'' @ fmt_02d (py_trunc r mod 60))"
proof -
  have "seconds \<noteq> PNone" using assms by auto
  then show ?thesis using assms by (simp add: format_time_str_def)
qed

lemma py_float_raises:
  assumes "py_float str2f v = Inl e"
  shows "e = TypeError \<or> e = ValueError \<or> e = OverflowError"
  using assms
  by (cases v) (auto simp: to_double_def split: sum.splits option.splits if_splits)

lemma format_time_overflow:
  assumes "seconds \<noteq> PNone"
    and "py_float str2f seconds = Inl OverflowError \<or> py_float str2f seconds = Inr PosInf
         \<or> py_float str2f seconds = Inr NegInf"
  shows "format_time_str str2f seconds = Inl OverflowError"
  using assms by (auto simp: format_time_str_def)

lemma format_time_ok:
  assumes "time_ok str2f v"
  shows "\<exists>s. format_time_str str2f v = Inr s"
proof (cases "v = PNone")
  case True
  then show ?thesis by (simp add: format_time_none)
next
  case False
  show ?thesis
  proof (cases "py_float str2f v")
    case (Inl e)
    then have "e = ValueError \<or> e = TypeError" using assms False by (simp add: time_ok_def)
    then show ?thesis using False Inl by (auto simp: format_time_str_def)
  next
    case (Inr f)
    then show ?thesis
      using assms False by (cases f) (simp_all add: time_ok_def format_time_str_def)
  qed
qed

lemma format_time_not_ok:
  assumes "\<not> time_ok str2f v"
  shows "format_time_str str2f v = Inl OverflowError"
proof -
  have n: "v \<noteq> PNone" using assms by (auto simp: time_ok_def)
  show ?thesis
  proof (cases "py_float str2f v")
    case (Inl e)
    then have "e \<noteq> ValueError" "e \<noteq> TypeError" using assms by (auto simp: time_ok_def)
    then have "e = OverflowError" using py_float_raises [OF Inl] by blast
    then show ?thesis using n Inl by (simp add: format_time_overflow)
  next
    case (Inr f)
    then have "f = PosInf \<or> f = NegInf" using assms by (cases f) (auto simp: time_ok_def)
    then show ?thesis using n Inr by (auto simp: format_time_overflow)
  qed
qed

lemma format_time_iff: "(\<exists>s. format_time_str str2f v = Inr s) = time_ok str2f v"
proof (cases "time_ok str2f v")
  case True
  then show ?thesis using format_time_ok by blast
next
  case False
  then show ?thesis using format_time_not_ok [OF False] by simp
qed

lemma progress_line_shows_loading:
  assumes "shows_loading str2f percent"
  shows "progress_line str2f percent pos dur = Inr loading_line"
proof (cases "percent = PNone")
  case True
  then show ?thesis by (simp add: progress_line_def)
next
  case False
  then show ?thesis
    using assms by (auto simp: shows_loading_def progress_line_def split: sum.splits)
qed

lemma percent_not_none:
  assumes "py_float str2f (py_or percent (PInt 0)) = Inr f" and "float_gt_zero f"
  shows "percent \<noteq> PNone"
  using assms by (auto simp: py_or_def to_double_zero)

lemma progress_line_times_ok:
  assumes "py_float str2f (py_or percent (PInt 0)) = Inr (Fin r)" and "0 < r" and "r \<le> 100"
    and "time_ok str2f pos" and "time_ok str2f dur"
  shows "\<exists>line. progress_line str2f percent pos dur = Inr line"
proof -
  obtain cur tot where t: "format_time_str str2f pos = Inr cur" "format_time_str str2f dur = Inr tot"
    using format_time_ok [OF assms(4)] format_time_ok [OF assms(5)] by blast
  show ?thesis using progress_line_bar [OF assms(1-3) t] by simp
qed

lemma progress_line_times_overflow:
  assumes "py_float str2f (py_or percent (PInt 0)) = Inr (Fin r)" and "0 < r" and "r \<le> 100"
    and "\<not> (time_ok str2f pos \<and> time_ok str2f dur)"
  shows "progress_line str2f percent pos dur = Inl OverflowError"
proof -
  have n: "percent \<noteq> PNone" using percent_not_none [OF assms(1)] assms(2) by simp
  have b: "draw_progress_bar str2f percent = Inr (bar_text (py_trunc r))"
    using assms(1-3) by (simp add: draw_progress_bar_percent)
  show ?thesis
  proof (cases "time_ok str2f pos")
    case False
    then have "format_time_str str2f pos = Inl OverflowError" by (rule format_time_not_ok)
    then show ?thesis using n assms(1,2) b by (simp add: progress_line_def)
  next
    case True
    then obtain cur where c: "format_time_str str2f pos = Inr cur"
      using format_time_ok by blast
    have "\<not> time_ok str2f dur" using assms(4) True by simp
    then have "format_time_str str2f dur = Inl OverflowError" by (rule format_time_not_ok)
    then show ?thesis using n assms(1,2) b c by (simp add: progress_line_def)
  qed
qed

lemma progress_line_infinite:
  assumes "py_float str2f (py_or percent (PInt 0)) = Inr PosInf"
  shows "progress_line str2f percent pos dur = Inl OverflowError"
proof -
  have n: "percent \<noteq> PNone" using percent_not_none [OF assms] by simp
  have "draw_progress_bar str2f percent = Inl OverflowError"
    using assms by (simp add: draw_progress_bar_def)
  then show ?thesis using n assms by (simp add: progress_line_def)
qed

text \<open>
  A count of \<open>2^63\<close> or more is no index: rounding to a double does not take a value
  below \<open>2^63\<close>, which is a double itself.
\<close>

lemma round_half_even_ge_floor: "\<lfloor>m\<rfloor> \<le> round_half_even m"
  by (simp add: round_half_even_def Let_def)

lemma round_half_even_ge_int:
  assumes "of_int k \<le> m"
  shows "k \<le> round_half_even m"
proof -
  have "k \<le> \<lfloor>m\<rfloor>" using assms by (simp add: le_floor_iff)
  then show ?thesis using round_half_even_ge_floor [of m] by linarith
qed

lemma floor_log2_le:
  assumes "0 < q"
  shows "2 powi (floor_log2 q) \<le> q"
proof -
  obtain n d where nd: "quotient_of q = (n, d)" by (cases "quotient_of q")
  have d: "0 < d" using nd by (rule quotient_of_denom_pos)
  have q: "q = of_int n / of_int d" using nd by (rule quotient_of_div)
  have n: "0 < n" using assms d q by (simp add: zero_less_divide_iff)
  let ?e0 = "bitlen n - bitlen d"
  show ?thesis
  proof (cases "2 powi ?e0 \<le> q")
    case True
    then show ?thesis by (simp add: floor_log2_def nd)
  next
    case False
    have bn: "2 ^ nat (bitlen n - 1) \<le> n" using bitlen_bounds [OF n] by simp
    have bd: "d < 2 ^ nat (bitlen d)" using bitlen_bounds [OF d] by simp
    have pn: "0 < bitlen n"
      using n bitlen_eq_zero_iff [of n] bitlen_nonneg [of n] by linarith
    have pd: "0 < bitlen d"
      using d bitlen_eq_zero_iff [of d] bitlen_nonneg [of d] by linarith
    have a: "(2::rat) powi (bitlen n - 1) \<le> of_int n"
    proof -
      have "(2::rat) powi (bitlen n - 1) = 2 ^ nat (bitlen n - 1)"
        using pn by (simp add: power_int_def)
      also have "\<dots> = of_int (2 ^ nat (bitlen n - 1))" by simp
      also have "\<dots> \<le> of_int n" using bn by (simp only: of_int_le_iff)
      finally show ?thesis .
    qed
    have b: "of_int d \<le> (2::rat) powi (bitlen d)"
    proof -
      have "(of_int d :: rat) \<le> of_int (2 ^ nat (bitlen d))" using bd by (simp only: of_int_le_iff)
      also have "\<dots> = 2 ^ nat (bitlen d)" by simp
      also have "\<dots> = 2 powi (bitlen d)" using pd by (simp add: power_int_def)
      finally show ?thesis .
    qed
    have "(2::rat) powi (?e0 - 1) = 2 powi (bitlen n - 1) / 2 powi (bitlen d)"
      by (simp add: power_int_diff)
    also have "\<dots> \<le> of_int n / of_int d"
      using a b d n by (intro frac_le) simp_all
    finally have "(2::rat) powi (?e0 - 1) \<le> q" using q by simp
    then show ?thesis using False by (simp add: floor_log2_def nd)
  qed
qed

lemma round_double_ge:
  assumes "2 ^ 63 \<le> q"
  shows "2 ^ 63 \<le> round_double q"
proof -
  have pos: "0 < q" using assms by (rule less_le_trans [rotated]) simp
  define e where "e = max (floor_log2 \<bar>q\<bar>) (- 1022)"
  define u :: rat where "u = 2 powi (e - 52)"
  have u: "0 < u" by (simp add: u_def)
  have r: "round_double q = of_int (round_half_even (q / u)) * u"
    using pos by (simp add: round_double_def e_def u_def Let_def)
  show ?thesis
  proof (cases "e \<le> 115")
    case True
    define m :: int where "m = 2 ^ nat (115 - e)"
    have mu: "of_int m * u = (2::rat) ^ 63"
    proof -
      have a: "(of_int m :: rat) = 2 powi (115 - e)" using True by (simp add: m_def power_int_def)
      have "(2::rat) powi ((115 - e) + (e - 52)) = 2 powi (115 - e) * 2 powi (e - 52)"
        by (rule power_int_add) simp
      moreover have "(115 - e) + (e - 52) = 63" by simp
      ultimately have "(2::rat) powi (115 - e) * 2 powi (e - 52) = 2 powi 63" by simp
      moreover have "(2::rat) powi 63 = 2 ^ 63" by (simp add: power_int_def)
      ultimately show ?thesis by (simp only: a u_def)
    qed
    have "of_int m \<le> q / u"
      using u mu assms by (simp add: le_divide_eq)
    then have "m \<le> round_half_even (q / u)" by (rule round_half_even_ge_int)
    then have "(of_int m :: rat) \<le> of_int (round_half_even (q / u))" by (simp only: of_int_le_iff)
    then have "of_int m * u \<le> of_int (round_half_even (q / u)) * u"
      using u by (simp add: mult_right_mono)
    then show ?thesis by (simp only: r mu)
  next
    case False
    then have big: "116 \<le> e" by simp
    then have e: "e = floor_log2 q" using pos by (simp add: e_def max_def split: if_splits)
    have "u \<le> 2 powi e" by (simp add: u_def power_int_increasing)
    also have "\<dots> \<le> q" using floor_log2_le [OF pos] e by simp
    finally have "1 \<le> q / u" using u by (simp add: le_divide_eq)
    then have "of_int 1 \<le> q / u" by simp
    then have "1 \<le> round_half_even (q / u)" by (rule round_half_even_ge_int)
    then have "(1::rat) \<le> of_int (round_half_even (q / u))" by simp
    then have "1 * u \<le> of_int (round_half_even (q / u)) * u"
      using u by (intro mult_right_mono) simp_all
    moreover have "(2::rat) ^ 63 \<le> u"
    proof -
      have "(2::rat) ^ 63 = 2 powi 63" by (simp add: power_int_def)
      also have "\<dots> \<le> 2 powi (e - 52)" using big by (intro power_int_increasing) simp_all
      finally show ?thesis by (simp add: u_def)
    qed
    ultimately have "(2::rat) ^ 63 \<le> of_int (round_half_even (q / u)) * u" by linarith
    then show ?thesis by (simp only: r)
  qed
qed

lemma draw_progress_bar_huge:
  assumes "py_float str2f (py_or percent (PInt 0)) = Inr (Fin p)" and "2 ^ 64 \<le> p"
  shows "draw_progress_bar str2f percent = Inl OverflowError"
proof -
  have p0: "0 \<le> p" using assms(2) by (rule order_trans [rotated]) simp
  have "of_int (2 ^ 64) \<le> p" using assms(2) by simp
  then have t: "2 ^ 64 \<le> py_trunc p" using p0 by (simp add: py_trunc_def le_floor_iff)
  have q: "(of_int (width * py_trunc p) / 100 :: rat) = of_int (py_trunc p) / 2"
    by (simp add: width_def)
  have "(2::rat) ^ 64 \<le> of_int (py_trunc p)"
  proof -
    have "(of_int (2 ^ 64) :: rat) \<le> of_int (py_trunc p)" using t by (simp only: of_int_le_iff)
    then show ?thesis by simp
  qed
  then have h: "(2::rat) ^ 63 \<le> of_int (py_trunc p) / 2" by simp
  show ?thesis
  proof (cases "to_double (of_int (py_trunc p) / 2)")
    case (Inl e)
    then have "e = OverflowError" by (auto simp: to_double_def split: if_splits)
    then show ?thesis
      using Inl by (simp only: draw_progress_bar_def assms(1) py_int_of_float.simps q sum.case)
  next
    case (Inr x)
    then have "x = round_double (of_int (py_trunc p) / 2)"
      by (auto simp: to_double_def split: if_splits)
    then have x: "2 ^ 63 \<le> x" using round_double_ge [OF h] by simp
    then have "0 \<le> x" by (rule order_trans [rotated]) simp
    moreover have "of_int (2 ^ 63) \<le> x" using x by simp
    ultimately have "2 ^ 63 \<le> py_trunc x" by (simp add: py_trunc_def le_floor_iff)
    then have "str_times full_block (py_trunc x) = Inl OverflowError"
      by (simp add: str_times_def PY_SSIZE_T_MAX_def)
    then show ?thesis
      using Inr
      by (simp only: draw_progress_bar_def assms(1) py_int_of_float.simps q sum.case Let_def)
  qed
qed

lemma progress_line_huge:
  assumes "py_float str2f (py_or percent (PInt 0)) = Inr (Fin p)" and "2 ^ 64 \<le> p"
  shows "progress_line str2f percent pos dur = Inl OverflowError"
proof -
  have "0 < p" using assms(2) by (rule less_le_trans [rotated]) simp
  then have n: "percent \<noteq> PNone" using percent_not_none [OF assms(1)] by simp
  have g: "float_gt_zero (Fin p)" using \<open>0 < p\<close> by simp
  have "draw_progress_bar str2f percent = Inl OverflowError"
    using assms by (rule draw_progress_bar_huge)
  then show ?thesis using n assms(1) g by (simp add: progress_line_def)
qed

lemma update_progress_display_result:
  "fst (update_progress_display str2f percent pos dur w)
     = (case progress_line str2f percent pos dur of Inl e \<Rightarrow> Raises e | Inr line \<Rightarrow> Returns ())"
  by (simp add: update_progress_display_def Let_def split: sum.splits)

lemma draw_progress_bar_none:
  "draw_progress_bar str2f PNone = draw_progress_bar str2f (PInt 0)
   \<and> draw_progress_bar str2f PNone = Inr (bar_text 0)"
proof -
  have f: "py_float str2f (py_or PNone (PInt 0)) = Inr (Fin 0)"
    by (simp add: py_or_def to_double_zero)
  have "draw_progress_bar str2f PNone = Inr (bar_text (py_trunc 0))"
    using f by (rule draw_progress_bar_percent) simp_all
  moreover have "draw_progress_bar str2f PNone = draw_progress_bar str2f (PInt 0)"
    by (simp add: draw_progress_bar_def py_or_def)
  ultimately show ?thesis by (simp add: py_trunc_def)
qed

text \<open>
  C10 (as the code has it). The time formatter returns \<open>00:00\<close> for None, for a
  value whose conversion raises ValueError or TypeError and for a NaN, and minutes
  and seconds, each padded to two digits, for a value that \<^verbatim>\<open>float\<close> turns into a
  finite double; for an infinite value, and for an integer too large for a
  double, it raises OverflowError, which it does not catch. The bar builder
  treats None as 0. Rendering the status line does not raise when the loading
  text is shown (the percentage is None, or not greater than zero as a float), nor
  when the percentage is in \<open>(0, 100]\<close> and each of the two times is one the formatter
  has a text for; with such a percentage and a time it has no text for, rendering
  raises OverflowError. A percentage that \<^verbatim>\<open>float\<close> rejects makes rendering raise
  what \<^verbatim>\<open>float\<close> raised, and an infinite one, or one of \<open>2^64\<close> or more, makes it raise
  OverflowError (the conversion to an integer, the division of line 248 or the
  repetition of line 249), for nothing around the bar catches either.
\<close>

theorem status_helpers:
  "format_time_str str2f PNone = Inr ''00:00''
   \<and> (py_float str2f seconds = Inl ValueError \<or> py_float str2f seconds = Inl TypeError
        \<or> py_float str2f seconds = Inr NaN
       \<longrightarrow> format_time_str str2f seconds = Inr ''00:00'')
   \<and> (py_float str2f seconds = Inr (Fin r)
       \<longrightarrow> format_time_str str2f seconds
             = Inr (fmt_02d (py_trunc r div 60) @ '':'' @ fmt_02d (py_trunc r mod 60)))
   \<and> (seconds \<noteq> PNone
        \<and> (py_float str2f seconds = Inl OverflowError \<or> py_float str2f seconds = Inr PosInf
            \<or> py_float str2f seconds = Inr NegInf)
       \<longrightarrow> format_time_str str2f seconds = Inl OverflowError)
   \<and> (\<exists>s. format_time_str str2f seconds = Inr s) = time_ok str2f seconds
   \<and> (0 \<le> n \<and> n < 100 \<longrightarrow> length (fmt_02d n) = 2)
   \<and> draw_progress_bar str2f PNone = draw_progress_bar str2f (PInt 0)
   \<and> draw_progress_bar str2f PNone = Inr (bar_text 0)
   \<and> (shows_loading str2f percent
       \<longrightarrow> progress_line str2f percent pos dur = Inr loading_line
           \<and> fst (update_progress_display str2f percent pos dur w) = Returns ())
   \<and> (py_float str2f (py_or percent (PInt 0)) = Inr (Fin p) \<and> 0 < p \<and> p \<le> 100
        \<and> time_ok str2f pos \<and> time_ok str2f dur
       \<longrightarrow> (\<exists>line. progress_line str2f percent pos dur = Inr line)
           \<and> fst (update_progress_display str2f percent pos dur w) = Returns ())
   \<and> (py_float str2f (py_or percent (PInt 0)) = Inr (Fin p) \<and> 0 < p \<and> p \<le> 100
        \<and> \<not> (time_ok str2f pos \<and> time_ok str2f dur)
       \<longrightarrow> progress_line str2f percent pos dur = Inl OverflowError
           \<and> fst (update_progress_display str2f percent pos dur w) = Raises OverflowError)
   \<and> (percent \<noteq> PNone \<and> py_float str2f (py_or percent (PInt 0)) = Inl e
       \<longrightarrow> progress_line str2f percent pos dur = Inl e
           \<and> fst (update_progress_display str2f percent pos dur w) = Raises e)
   \<and> (py_float str2f (py_or percent (PInt 0)) = Inr PosInf
       \<longrightarrow> progress_line str2f percent pos dur = Inl OverflowError
           \<and> fst (update_progress_display str2f percent pos dur w) = Raises OverflowError)
   \<and> (py_float str2f (py_or percent (PInt 0)) = Inr (Fin p) \<and> 2 ^ 64 \<le> p
       \<longrightarrow> progress_line str2f percent pos dur = Inl OverflowError
           \<and> fst (update_progress_display str2f percent pos dur w) = Raises OverflowError)"
proof (intro conjI impI)
  show "format_time_str str2f PNone = Inr ''00:00''" by (rule format_time_none)
  show "format_time_str str2f seconds = Inr ''00:00''"
    if "py_float str2f seconds = Inl ValueError \<or> py_float str2f seconds = Inl TypeError
        \<or> py_float str2f seconds = Inr NaN"
    using that by (rule format_time_rejected)
  show "format_time_str str2f seconds
          = Inr (fmt_02d (py_trunc r div 60) @ '':'' @ fmt_02d (py_trunc r mod 60))"
    if "py_float str2f seconds = Inr (Fin r)"
    using that by (rule format_time_finite)
  show "format_time_str str2f seconds = Inl OverflowError"
    if "seconds \<noteq> PNone
        \<and> (py_float str2f seconds = Inl OverflowError \<or> py_float str2f seconds = Inr PosInf
            \<or> py_float str2f seconds = Inr NegInf)"
    using that by (simp add: format_time_overflow)
  show "(\<exists>s. format_time_str str2f seconds = Inr s) = time_ok str2f seconds"
    by (rule format_time_iff)
  show "length (fmt_02d n) = 2" if "0 \<le> n \<and> n < 100"
    using that by (simp add: fmt_02d_length)
  show "draw_progress_bar str2f PNone = draw_progress_bar str2f (PInt 0)"
    by (rule draw_progress_bar_none [THEN conjunct1])
  show "draw_progress_bar str2f PNone = Inr (bar_text 0)"
    by (rule draw_progress_bar_none [THEN conjunct2])
next
  assume "shows_loading str2f percent"
  then show l: "progress_line str2f percent pos dur = Inr loading_line"
    by (rule progress_line_shows_loading)
  show "fst (update_progress_display str2f percent pos dur w) = Returns ()"
    by (simp add: update_progress_display_result l)
next
  assume ok: "py_float str2f (py_or percent (PInt 0)) = Inr (Fin p) \<and> 0 < p \<and> p \<le> 100
        \<and> time_ok str2f pos \<and> time_ok str2f dur"
  then obtain line where l: "progress_line str2f percent pos dur = Inr line"
    using progress_line_times_ok [of str2f percent p pos dur] by blast
  then show "\<exists>line. progress_line str2f percent pos dur = Inr line" ..
  show "fst (update_progress_display str2f percent pos dur w) = Returns ()"
    by (simp add: update_progress_display_result l)
next
  assume "py_float str2f (py_or percent (PInt 0)) = Inr (Fin p) \<and> 0 < p \<and> p \<le> 100
        \<and> \<not> (time_ok str2f pos \<and> time_ok str2f dur)"
  then show l: "progress_line str2f percent pos dur = Inl OverflowError"
    using progress_line_times_overflow [of str2f percent p pos dur] by blast
  show "fst (update_progress_display str2f percent pos dur w) = Raises OverflowError"
    by (simp add: update_progress_display_result l)
next
  assume a: "percent \<noteq> PNone \<and> py_float str2f (py_or percent (PInt 0)) = Inl e"
  then show l: "progress_line str2f percent pos dur = Inl e"
    by (simp add: progress_line_def)
  show "fst (update_progress_display str2f percent pos dur w) = Raises e"
    by (simp add: update_progress_display_result l)
next
  assume "py_float str2f (py_or percent (PInt 0)) = Inr PosInf"
  then show l: "progress_line str2f percent pos dur = Inl OverflowError"
    by (rule progress_line_infinite)
  show "fst (update_progress_display str2f percent pos dur w) = Raises OverflowError"
    by (simp add: update_progress_display_result l)
next
  assume "py_float str2f (py_or percent (PInt 0)) = Inr (Fin p) \<and> 2 ^ 64 \<le> p"
  then show l: "progress_line str2f percent pos dur = Inl OverflowError"
    using progress_line_huge [of str2f percent p pos dur] by blast
  show "fst (update_progress_display str2f percent pos dur w) = Raises OverflowError"
    by (simp add: update_progress_display_result l)
qed

text \<open>
  A time of 90 seconds is rendered \<open>01:30\<close> and an unreadable one \<open>00:00\<close>; a status of
  45 percent, 90 seconds and no duration is rendered without an exception.
\<close>

theorem status_helpers_witness:
  "py_float (parse_float quiet_env) (PStr ''abc'') = Inl ValueError
   \<and> format_time_str (parse_float quiet_env) (PStr ''abc'') = Inr ''00:00''
   \<and> py_float (parse_float quiet_env) (PFloat (Fin 90)) = Inr (Fin 90)
   \<and> format_time_str (parse_float quiet_env) (PFloat (Fin 90)) = Inr ''01:30''
   \<and> py_float (parse_float quiet_env) (py_or (PFloat (Fin 45)) (PInt 0)) = Inr (Fin 45)
   \<and> time_ok (parse_float quiet_env) (PFloat (Fin 90))
   \<and> time_ok (parse_float quiet_env) PNone
   \<and> fst (update_progress_display (parse_float quiet_env) (PFloat (Fin 45)) (PFloat (Fin 90))
            PNone three_tracks) = Returns ()"
proof -
  let ?f = "parse_float quiet_env"
  have a: "py_float ?f (PStr ''abc'') = Inl ValueError" by (simp add: quiet_env_def)
  have b: "py_float ?f (PFloat (Fin 90)) = Inr (Fin 90)" by simp
  have p: "py_float ?f (py_or (PFloat (Fin 45)) (PInt 0)) = Inr (Fin 45)"
    by (simp add: py_or_def)
  have t: "time_ok ?f (PFloat (Fin 90))" "time_ok ?f PNone" by (simp_all add: time_ok_def)
  note h = status_helpers [of ?f "PStr ''abc''" 0 0 "PFloat (Fin 45)" "PFloat (Fin 90)" PNone
             three_tracks 45 ValueError]
  have c: "format_time_str ?f (PStr ''abc'') = Inr ''00:00''"
    using h [THEN conjunct2, THEN conjunct1] a by blast
  have r: "(0::rat) < 45 \<and> (45::rat) \<le> 100" by simp
  have d: "fst (update_progress_display ?f (PFloat (Fin 45)) (PFloat (Fin 90)) PNone three_tracks)
             = Returns ()"
    using h p r t by blast
  show ?thesis using a b c d p t time_90 [of ?f] by blast
qed

lemma round_double_2_65: "round_double (2 ^ 65) = 2 ^ 65 \<and> round_double (2 ^ 64) = 2 ^ 64"
  by code_simp

lemma huge_percent_overflows:
  "progress_line str2f (PInt (2 ^ 65)) PNone PNone = Inl OverflowError"
proof -
  have a: "to_double (2 ^ 65) = Inr (2 ^ 65)"
    using to_double_in_range [of "2 ^ 65"] round_double_2_65 by simp
  have b: "to_double (2 ^ 64) = Inr (2 ^ 64)"
    using to_double_in_range [of "2 ^ 64"] round_double_2_65 by simp
  have f: "py_float str2f (py_or (PInt (2 ^ 65)) (PInt 0)) = Inr (Fin (2 ^ 65))"
    using a by (simp add: py_or_def)
  have t: "py_trunc (2 ^ 65) = 2 ^ 65" "py_trunc (2 ^ 64) = 2 ^ 64"
    by (simp_all add: py_trunc_def)
  have q: "(of_int (width * 2 ^ 65) / 100 :: rat) = 2 ^ 64" by (simp add: width_def)
  have "draw_progress_bar str2f (PInt (2 ^ 65)) = Inl OverflowError"
    by (simp only: draw_progress_bar_def f py_int_of_float.simps t q b sum.case Let_def)
       (simp add: str_times_def PY_SSIZE_T_MAX_def)
  then show ?thesis using f by (simp add: progress_line_def)
qed

text \<open>
  The claim as stated fails on values that a reply can hold: a percentage that is
  a string \<^verbatim>\<open>float\<close> cannot read, or a list, makes line 262 raise; a percentage of
  \<open>2^65\<close> passes line 262 and makes the repetition of line 249 raise, its count
  being no index; and with a percentage of 45 an infinite time makes the formatter
  raise. Each exception leaves \<^verbatim>\<open>update_progress_display\<close>.
\<close>

theorem status_line_raises:
  "parse_float quiet_env ''abc'' = None
   \<and> fst (update_progress_display (parse_float quiet_env) (PStr ''abc'') PNone PNone three_tracks)
       = Raises ValueError
   \<and> fst (update_progress_display (parse_float quiet_env) (PList [PInt 1]) PNone PNone
            three_tracks)
       = Raises TypeError
   \<and> fst (update_progress_display (parse_float quiet_env) (PInt (2 ^ 65)) PNone PNone
            three_tracks)
       = Raises OverflowError
   \<and> fst (update_progress_display (parse_float quiet_env) (PFloat (Fin 45)) (PFloat PosInf)
            PNone three_tracks)
       = Raises OverflowError"
proof -
  have a: "parse_float quiet_env ''abc'' = None
   \<and> fst (update_progress_display (parse_float quiet_env) (PStr ''abc'') PNone PNone three_tracks)
       = Raises ValueError
   \<and> fst (update_progress_display (parse_float quiet_env) (PList [PInt 1]) PNone PNone
            three_tracks)
       = Raises TypeError"
    by (simp add: update_progress_display_def progress_line_def py_or_def quiet_env_def Let_def)
  have b: "fst (update_progress_display (parse_float quiet_env) (PInt (2 ^ 65)) PNone PNone
            three_tracks)
       = Raises OverflowError"
    by (simp only: update_progress_display_result huge_percent_overflows sum.case)
  have f: "py_float (parse_float quiet_env) (py_or (PFloat (Fin 45)) (PInt 0)) = Inr (Fin 45)"
    by (simp add: py_or_def)
  have n: "\<not> (time_ok (parse_float quiet_env) (PFloat PosInf)
               \<and> time_ok (parse_float quiet_env) PNone)"
    by (simp add: time_ok_def)
  have "progress_line (parse_float quiet_env) (PFloat (Fin 45)) (PFloat PosInf) PNone
          = Inl OverflowError"
    using f _ _ n by (rule progress_line_times_overflow) simp_all
  then have c: "fst (update_progress_display (parse_float quiet_env) (PFloat (Fin 45))
                  (PFloat PosInf) PNone three_tracks) = Raises OverflowError"
    by (simp add: update_progress_display_result)
  show ?thesis using a b c by simp
qed

end
